theory Spec2Isabelle
  imports Main "HOL-Library.Sublist"
begin

section \<open>Strings as the source uses them\<close>

text \<open>
  Identifiers, URLs and header values are ASCII strings (Hugging Face repository names
  and the URLs built from them), so \<open>str.lower()\<close> is the map of the 26 capital letters
  to their small forms and leaves every other character as it is, and the white space
  of \<open>str.strip()\<close> and of \<open>\s\<close> in a pattern is the ASCII white space, the characters 9
  to 13 and 28 to 32 (\<open>is_space\<close> below). On text outside ASCII Python also changes the
  case of other letters and also takes U+0085, U+00A0 and the other Unicode spaces as
  white space; such text is outside this model.
\<close>

definition lower_char :: "char \<Rightarrow> char" where
  "lower_char c =
     (case map_of (zip ''ABCDEFGHIJKLMNOPQRSTUVWXYZ'' ''abcdefghijklmnopqrstuvwxyz'') c of
        None \<Rightarrow> c
      | Some l \<Rightarrow> l)"

definition lower :: "string \<Rightarrow> string" where
  "lower s = map lower_char s"

text \<open>\<open>s.endswith(suf)\<close> for one suffix, and for a tuple of suffixes.\<close>

definition endswith :: "string \<Rightarrow> string \<Rightarrow> bool" where
  "endswith s suf \<longleftrightarrow> length suf \<le> length s \<and> drop (length s - length suf) s = suf"

definition endswith_any :: "string \<Rightarrow> string list \<Rightarrow> bool" where
  "endswith_any s sufs \<longleftrightarrow> list_ex (endswith s) sufs"

text \<open>
  \<open>model_id.split("/", 1)[-1]\<close>: the text after the first slash, or the whole string
  when it has no slash.
\<close>

definition split_slash_last :: "string \<Rightarrow> string" where
  "split_slash_last s =
     (case dropWhile (\<lambda>c. c \<noteq> CHR ''/'') s of
        [] \<Rightarrow> s
      | _ # rest \<Rightarrow> rest)"

section \<open>models.py: derivative-model detection\<close>

definition DERIVATIVE_SUFFIXES :: "string list" where
  "DERIVATIVE_SUFFIXES =
     [''-gguf'', ''-fp8'', ''-fp4'', ''-bf16'', ''-int4'', ''-int8'',
      ''-awq'', ''-gptq'', ''-nvfp4'', ''-onnx'',
      ''-base'', ''-pretrain'', ''-original'',
      ''-eagle'', ''-unquantized'']"

definition is_derivative_model :: "string \<Rightarrow> bool" where
  "is_derivative_model model_id =
     (let name = lower (split_slash_last model_id)
      in endswith_any name DERIVATIVE_SUFFIXES)"

section \<open>monitoring.py: one poll cycle\<close>

text \<open>
  A fetched listing entry is the dict \<open>{"id": ..., "last_modified": ...}\<close> that
  \<open>fetch_models_for_org\<close> builds. The entry of a publisher in \<open>state["orgs"]\<close> is a
  dict from a key to a list of identifiers (the program itself writes the one key
  \<open>"models"\<close>); it is kept as an association list, so that the truth value of the dict
  (\<open>not org_state\<close>) and \<open>org_state.get("models", [])\<close> are what the source computes.
\<close>

record fetched_model =
  model_id :: string
  last_modified :: string

type_synonym org_state = "(string \<times> string list) list"

record bot_state =
  orgs :: "string \<rightharpoonup> org_state"
  chat_users :: "string \<rightharpoonup> (string \<rightharpoonup> string \<times> string)"
  question_bank :: "(string \<times> string) list"

datatype fetch_error = ClientError | TimeoutError | OtherError

definition get_models :: "org_state \<Rightarrow> string list" where
  "get_models org_state = (case map_of org_state ''models'' of None \<Rightarrow> [] | Some ms \<Rightarrow> ms)"

text \<open>The deduplication loop: \<open>seen\<close> is the set, \<open>current_ids\<close> the list being built.\<close>

fun dedup_loop :: "fetched_model list \<Rightarrow> string set \<Rightarrow> string list \<Rightarrow> string list" where
  "dedup_loop [] seen current_ids = current_ids"
| "dedup_loop (m # ms) seen current_ids =
     (let mid = model_id m
      in if mid \<notin> seen then dedup_loop ms (insert mid seen) (current_ids @ [mid])
         else dedup_loop ms seen current_ids)"

definition dedup :: "fetched_model list \<Rightarrow> string list" where
  "dedup models = dedup_loop models {} []"

text \<open>
  The effects of a cycle: the state document, the calls of \<open>_notify_new_model\<close> in the
  order they are made (publisher, identifier), and the flag \<open>changed\<close>.
\<close>

record cycle =
  st :: bot_state
  sent :: "(string \<times> string) list"
  changed :: bool

definition store_models :: "cycle \<Rightarrow> string \<Rightarrow> string list \<Rightarrow> cycle" where
  "store_models c org current_ids =
     c\<lparr>st := (st c)\<lparr>orgs := (orgs (st c))(org \<mapsto> [(''models'', current_ids)])\<rparr>,
       changed := True\<rparr>"

text \<open>The body of the loop \<open>for org, models in results\<close>.\<close>

definition poll_org :: "cycle \<Rightarrow> string \<times> fetched_model list \<Rightarrow> cycle" where
  "poll_org c r =
     (case r of (org, models) \<Rightarrow>
        if models = [] then c
        else
          let current_ids = dedup models
          in (case orgs (st c) org of
                None \<Rightarrow> store_models c org current_ids
              | Some org_state \<Rightarrow>
                  if org_state = [] then store_models c org current_ids
                  else
                    let prev_set = set (get_models org_state);
                        new_ids = filter (\<lambda>mid. mid \<notin> prev_set) current_ids
                    in if new_ids \<noteq> [] then
                         let main_models = filter (\<lambda>mid. \<not> is_derivative_model mid) new_ids
                         in store_models
                              (c\<lparr>sent := sent c @ map (Pair org) (rev main_models)\<rparr>)
                              org current_ids
                       else if current_ids \<noteq> get_models org_state then
                         store_models c org current_ids
                       else c))"

text \<open>
  \<open>_fetch\<close>: the client either returns a listing or raises; a raise is turned into the
  empty listing.
\<close>

definition fetch :: "(string \<Rightarrow> fetch_error + fetched_model list) \<Rightarrow> string
    \<Rightarrow> string \<times> fetched_model list" where
  "fetch hf org = (case hf org of Inl e \<Rightarrow> (org, []) | Inr models \<Rightarrow> (org, models))"

record poll_result =
  state :: bot_state
  notified :: "(string \<times> string) list"
  saves :: "bot_state list"

text \<open>
  \<open>poll_once\<close>: \<open>saves\<close> lists the documents handed to \<open>save_state\<close> (none, or the final
  state once).
\<close>

definition poll_once :: "string list \<Rightarrow> bot_state
    \<Rightarrow> (string \<Rightarrow> fetch_error + fetched_model list) \<Rightarrow> poll_result" where
  "poll_once org_list s hf =
     (let results = map (fetch hf) org_list;
          c = foldl poll_org \<lparr>st = s, sent = [], changed = False\<rparr> results
      in \<lparr>state = st c, notified = sent c,
          saves = (if changed c then [st c] else [])\<rparr>)"

subsection \<open>Vocabulary for the statements about a cycle\<close>

text \<open>
  What the state document holds for a publisher, as the loop reads it: nothing when the
  entry is missing or is the empty dict, otherwise the list under \<open>"models"\<close>.
\<close>

definition stored_models :: "bot_state \<Rightarrow> string \<Rightarrow> string list option" where
  "stored_models s org =
     (case orgs s org of
        None \<Rightarrow> None
      | Some org_state \<Rightarrow> if org_state = [] then None else Some (get_models org_state))"

definition new_main_ids :: "string list \<Rightarrow> fetched_model list \<Rightarrow> string list" where
  "new_main_ids prev models =
     filter (\<lambda>mid. \<not> is_derivative_model mid)
       (filter (\<lambda>mid. mid \<notin> set prev) (dedup models))"

definition notes_for :: "bot_state \<Rightarrow> string \<Rightarrow> fetched_model list
    \<Rightarrow> (string \<times> string) list" where
  "notes_for s org models =
     (case stored_models s org of
        None \<Rightarrow> []
      | Some prev \<Rightarrow> map (Pair org) (rev (new_main_ids prev models)))"

definition differs :: "bot_state \<Rightarrow> string \<Rightarrow> fetched_model list \<Rightarrow> bool" where
  "differs s org models \<longleftrightarrow> models \<noteq> [] \<and> stored_models s org \<noteq> Some (dedup models)"

text \<open>The identifiers notified for one publisher, in the order the calls are made.\<close>

definition for_org :: "string \<Rightarrow> (string \<times> string) list \<Rightarrow> string list" where
  "for_org org ns = map snd (filter (\<lambda>n. fst n = org) ns)"

subsection \<open>Example inputs\<close>

definition fm :: "string \<Rightarrow> fetched_model" where
  "fm i = \<lparr>model_id = i, last_modified = ''2025-01-01T00:00:00.000Z''\<rparr>"

definition acme_state :: "string list \<Rightarrow> bot_state" where
  "acme_state ids =
     \<lparr>orgs = [''acme'' \<mapsto> [(''models'', ids)]], chat_users = Map.empty, question_bank = []\<rparr>"

definition acme_hf :: "string list \<Rightarrow> string \<Rightarrow> fetch_error + fetched_model list" where
  "acme_hf ids org = (if org = ''acme'' then Inr (map fm ids) else Inl ClientError)"

section \<open>clients/huggingface.py: the pagination loop\<close>

text \<open>
  \<open>_LINK_NEXT_RE = re.compile(r'<([^>]+)>;\s*rel="next"')\<close> and its \<open>search\<close>:
  \<open>link_next_at\<close> matches the pattern at the head of the string (the group is the
  longest run of characters other than \<open>>\<close> after the bracket, and the greedy
  white space cannot be given back, since the literal that follows starts with a
  letter); \<open>LINK_NEXT_RE_search\<close> tries each start from the left and returns group 1
  of the first match. On ASCII text \<open>\s\<close> is the characters 9 to 13 and 28 to 32.
\<close>

definition dquote :: char where
  "dquote = CHR 0x22"

definition is_space :: "char \<Rightarrow> bool" where
  "is_space c \<longleftrightarrow> (let n = (of_char c :: nat) in (9 \<le> n \<and> n \<le> 13) \<or> (28 \<le> n \<and> n \<le> 32))"

definition HF_API :: string where
  "HF_API = ''https://huggingface.co/api/models''"

definition PAGE_SIZE :: nat where
  "PAGE_SIZE = 1000"

definition link_next_at :: "string \<Rightarrow> string option" where
  "link_next_at s =
     (case s of
        [] \<Rightarrow> None
      | c # rest \<Rightarrow>
          if c \<noteq> CHR ''<'' then None
          else
            let target = takeWhile (\<lambda>x. x \<noteq> CHR ''>'') rest;
                tail = dropWhile (\<lambda>x. x \<noteq> CHR ''>'') rest
            in if target \<noteq> [] \<and> prefix ''>;'' tail \<and>
                  prefix (''rel='' @ [dquote] @ ''next'' @ [dquote])
                    (dropWhile is_space (drop 2 tail))
               then Some target else None)"

fun LINK_NEXT_RE_search :: "string \<Rightarrow> string option" where
  "LINK_NEXT_RE_search [] = None"
| "LINK_NEXT_RE_search (c # cs) =
     (case link_next_at (c # cs) of
        Some target \<Rightarrow> Some target
      | None \<Rightarrow> LINK_NEXT_RE_search cs)"

text \<open>
  The upstream server is any function of the number of requests made so far and of the
  request; it answers with a page (the JSON list and the \<open>Link\<close> header, if any) or the
  request fails (\<open>raise_for_status\<close>, a connection error, a body that is not JSON). The
  loop \<open>for _ in range(max_pages)\<close> is recursion on the number of rounds left; the
  result carries the requests made, in order, and what \<open>_paginate\<close> returns or raises.
\<close>

datatype http_error = ClientResponseError | ClientConnectionError | ContentTypeError

record 'p request =
  url :: string
  params :: "'p option"

record 'a response =
  batch :: "'a list"
  link_header :: "string option"

type_synonym ('p, 'a) upstream = "nat \<Rightarrow> 'p request \<Rightarrow> http_error + 'a response"

definition get_link :: "'a response \<Rightarrow> string" where
  "get_link resp = (case link_header resp of None \<Rightarrow> [] | Some h \<Rightarrow> h)"

fun paginate_loop :: "nat \<Rightarrow> ('p, 'a) upstream \<Rightarrow> 'p request \<Rightarrow> 'a list \<Rightarrow> 'p request list
    \<Rightarrow> 'p request list \<times> (http_error + 'a list)" where
  "paginate_loop 0 up req all_items fetched = (fetched, Inr all_items)"
| "paginate_loop (Suc k) up req all_items fetched =
     (case up (length fetched) req of
        Inl e \<Rightarrow> (fetched @ [req], Inl e)
      | Inr resp \<Rightarrow>
          if batch resp = [] then (fetched @ [req], Inr all_items)
          else if length (batch resp) < PAGE_SIZE then (fetched @ [req], Inr (all_items @ batch resp))
          else
            (case LINK_NEXT_RE_search (get_link resp) of
               None \<Rightarrow> (fetched @ [req], Inr (all_items @ batch resp))
             | Some next_url \<Rightarrow>
                 paginate_loop k up \<lparr>url = next_url, params = None\<rparr>
                   (all_items @ batch resp) (fetched @ [req])))"

definition paginate :: "('p, 'a) upstream \<Rightarrow> 'p \<Rightarrow> int \<Rightarrow> 'p request list \<times> (http_error + 'a list)" where
  "paginate up ps max_pages =
     paginate_loop (nat max_pages) up \<lparr>url = HF_API, params = Some ps\<rparr> [] []"

definition paginate_default :: "('p, 'a) upstream \<Rightarrow> 'p \<Rightarrow> 'p request list \<times> (http_error + 'a list)" where
  "paginate_default up ps = paginate up ps 50"

definition next_link :: string where
  "next_link = ''<https://huggingface.co/api/models?cursor=abc>; rel='' @ [dquote] @ ''next'' @ [dquote]"

text \<open>A page that makes the loop go on, and a page that ends it.\<close>

definition full_page :: "'a response \<Rightarrow> bool" where
  "full_page resp \<longleftrightarrow> length (batch resp) = PAGE_SIZE \<and> LINK_NEXT_RE_search (get_link resp) \<noteq> None"

definition last_page :: "'a response \<Rightarrow> bool" where
  "last_page resp \<longleftrightarrow> batch resp = [] \<or> length (batch resp) < PAGE_SIZE \<or>
     LINK_NEXT_RE_search (get_link resp) = None"

definition full_upstream :: "(unit, nat) upstream" where
  "full_upstream n r = Inr \<lparr>batch = replicate 1000 n, link_header = Some next_link\<rparr>"

definition short_upstream :: "(unit, nat) upstream" where
  "short_upstream n r = Inr \<lparr>batch = [1, 2, 3], link_header = Some next_link\<rparr>"

section \<open>state.py: loading the state document\<close>

text \<open>
  The state file as \<open>open(path, encoding="utf-8")\<close> and \<open>json.load\<close> meet it: it is
  missing, cannot be opened or read (the subclasses of \<open>OSError\<close>), or has a content,
  a sequence of bytes. Reading the content in text mode decodes it as UTF-8 with the
  strict error handler, which raises \<open>UnicodeDecodeError\<close> (a \<open>ValueError\<close>) on an
  ill-formed sequence; a decoded text is handed to the JSON parser, a parameter here,
  which returns a value or raises (\<open>JSONDecodeError\<close> on text that is not JSON,
  \<open>RecursionError\<close> on nesting that is too deep, \<open>ValueError\<close> on an integer with too
  many digits). A dict is an association list in
  insertion order; \<open>load_state\<close> looks at the top level only, and numbers are kept as
  integers.
\<close>

datatype json = JNull | JBool bool | JNum int | JStr string | JArr "json list"
  | JObj "(string \<times> json) list"

datatype py_exception = FileNotFoundError | PermissionError | IsADirectoryError | OSError
  | JSONDecodeError | UnicodeDecodeError | RecursionError | ValueError

definition is_OSError :: "py_exception \<Rightarrow> bool" where
  "is_OSError e \<longleftrightarrow> e \<in> {FileNotFoundError, PermissionError, IsADirectoryError, OSError}"

datatype state_file = Missing | Denied | IsDirectory | ReadFailure | Content string

text \<open>Well-formed UTF-8 (the table of the Unicode standard, as the decoder applies it).\<close>

definition continuation_byte :: "nat \<Rightarrow> bool" where
  "continuation_byte b \<longleftrightarrow> 0x80 \<le> b \<and> b \<le> 0xBF"

fun utf8_valid :: "nat list \<Rightarrow> bool" where
  "utf8_valid [] = True"
| "utf8_valid (b # bs) =
     (if b < 0x80 then utf8_valid bs
      else if 0xC2 \<le> b \<and> b \<le> 0xDF then
        (case bs of c1 # r \<Rightarrow> continuation_byte c1 \<and> utf8_valid r | _ \<Rightarrow> False)
      else if b = 0xE0 then
        (case bs of c1 # c2 # r \<Rightarrow> 0xA0 \<le> c1 \<and> c1 \<le> 0xBF \<and> continuation_byte c2 \<and> utf8_valid r
         | _ \<Rightarrow> False)
      else if b = 0xED then
        (case bs of c1 # c2 # r \<Rightarrow> 0x80 \<le> c1 \<and> c1 \<le> 0x9F \<and> continuation_byte c2 \<and> utf8_valid r
         | _ \<Rightarrow> False)
      else if 0xE1 \<le> b \<and> b \<le> 0xEF then
        (case bs of c1 # c2 # r \<Rightarrow> continuation_byte c1 \<and> continuation_byte c2 \<and> utf8_valid r | _ \<Rightarrow> False)
      else if b = 0xF0 then
        (case bs of c1 # c2 # c3 # r \<Rightarrow>
           0x90 \<le> c1 \<and> c1 \<le> 0xBF \<and> continuation_byte c2 \<and> continuation_byte c3 \<and> utf8_valid r
         | _ \<Rightarrow> False)
      else if 0xF1 \<le> b \<and> b \<le> 0xF3 then
        (case bs of c1 # c2 # c3 # r \<Rightarrow> continuation_byte c1 \<and> continuation_byte c2 \<and> continuation_byte c3 \<and> utf8_valid r
         | _ \<Rightarrow> False)
      else if b = 0xF4 then
        (case bs of c1 # c2 # c3 # r \<Rightarrow>
           0x80 \<le> c1 \<and> c1 \<le> 0x8F \<and> continuation_byte c2 \<and> continuation_byte c3 \<and> utf8_valid r
         | _ \<Rightarrow> False)
      else False)"

definition open_and_load :: "(string \<Rightarrow> py_exception + json) \<Rightarrow> state_file
    \<Rightarrow> py_exception + json" where
  "open_and_load loads f =
     (case f of
        Missing \<Rightarrow> Inl FileNotFoundError
      | Denied \<Rightarrow> Inl PermissionError
      | IsDirectory \<Rightarrow> Inl IsADirectoryError
      | ReadFailure \<Rightarrow> Inl OSError
      | Content bytes \<Rightarrow>
          if \<not> utf8_valid (map of_char bytes) then Inl UnicodeDecodeError
          else loads bytes)"

text \<open>\<open>_empty_state\<close>, \<open>dict.setdefault\<close> and \<open>load_state\<close> with its \<open>except\<close> clause.\<close>

definition empty_state :: "(string \<times> json) list" where
  "empty_state = [(''orgs'', JObj []), (''chat_users'', JObj []), (''question_bank'', JArr [])]"

definition setdefault :: "(string \<times> json) list \<Rightarrow> string \<Rightarrow> json \<Rightarrow> (string \<times> json) list" where
  "setdefault d k v = (if k \<in> fst ` set d then d else d @ [(k, v)])"

definition load_state :: "(string \<Rightarrow> py_exception + json) \<Rightarrow> state_file
    \<Rightarrow> py_exception + (string \<times> json) list" where
  "load_state loads f =
     (case open_and_load loads f of
        Inl e \<Rightarrow>
          if e = FileNotFoundError \<or> is_OSError e \<or> e = JSONDecodeError then Inr empty_state
          else Inl e
      | Inr data \<Rightarrow>
          (case data of
             JObj d \<Rightarrow>
               Inr (setdefault (setdefault (setdefault d ''orgs'' (JObj []))
                      ''chat_users'' (JObj [])) ''question_bank'' (JArr []))
           | _ \<Rightarrow> Inr empty_state))"

section \<open>clients/huggingface.py and handlers.py: the context aggregator\<close>

text \<open>\<open>sub in s\<close>, \<open>s.strip()\<close>, \<open>s.lstrip(chars)\<close>, \<open>xs[:n]\<close> and \<open>sep.join(xs)\<close>.\<close>

fun str_contains :: "string \<Rightarrow> string \<Rightarrow> bool" where
  "str_contains [] sub = (sub = [])"
| "str_contains (c # cs) sub = (prefix sub (c # cs) \<or> str_contains cs sub)"

definition strip :: "string \<Rightarrow> string" where
  "strip s = rev (dropWhile is_space (rev (dropWhile is_space s)))"

definition lstrip_chars :: "string \<Rightarrow> string \<Rightarrow> string" where
  "lstrip_chars chars s = dropWhile (\<lambda>c. c \<in> set chars) s"

definition py_slice_to :: "int \<Rightarrow> 'a list \<Rightarrow> 'a list" where
  "py_slice_to n xs = (if 0 \<le> n then take (nat n) xs else take (length xs - nat (- n)) xs)"

definition join :: "string \<Rightarrow> string list \<Rightarrow> string" where
  "join sep xs = (case xs of [] \<Rightarrow> [] | y # ys \<Rightarrow> foldl (\<lambda>acc x. acc @ sep @ x) y ys)"

definition newline :: char where
  "newline = CHR 0x0A"

text \<open>
  \<open>_extract_images\<close>. The two compiled patterns of \<open>_IMG_PATTERNS\<close> are parameters: each
  is the function \<open>findall\<close> of one pattern. Each \<open>for\<close> of the source is one
  recursive function below (\<open>u\<close> is the source's \<open>url\<close>, \<open>mid\<close> its \<open>model_id\<close>).
\<close>

definition DECORATIVE :: "string list" where
  "DECORATIVE = [''badge'', ''shield'', ''icon'', ''.svg'', ''logo'']"

definition RELEVANT_IMG_KW :: "string list" where
  "RELEVANT_IMG_KW =
     [''benchmark'', ''performance'', ''comparison'', ''chart'', ''graph'',
      ''result'', ''eval'', ''score'', ''accuracy'', ''metrics'', ''leaderboard'', ''table'']"

definition is_decorative :: "string \<Rightarrow> bool" where
  "is_decorative u \<longleftrightarrow> list_ex (\<lambda>s. str_contains (lower u) s) DECORATIVE"

definition is_relevant :: "string \<Rightarrow> bool" where
  "is_relevant u \<longleftrightarrow> list_ex (\<lambda>kw. str_contains (lower u) kw) RELEVANT_IMG_KW"

definition resolve :: "string \<Rightarrow> string \<Rightarrow> string" where
  "resolve mid u =
     (if \<not> prefix ''http'' u
      then ''https://huggingface.co/'' @ mid @ ''/resolve/main/'' @ lstrip_chars ''./'' u
      else u)"

fun normalize_loop :: "string \<Rightarrow> string list \<Rightarrow> string list \<Rightarrow> string list" where
  "normalize_loop mid [] normalized = normalized"
| "normalize_loop mid (r # raw) normalized =
     (let u = strip r
      in if is_decorative u then normalize_loop mid raw normalized
         else normalize_loop mid raw (normalized @ [resolve mid u]))"

fun bucket_loop :: "string list \<Rightarrow> string list \<Rightarrow> string list \<Rightarrow> string list \<times> string list" where
  "bucket_loop [] relevant others = (relevant, others)"
| "bucket_loop (u # normalized) relevant others =
     (if is_relevant u then bucket_loop normalized (relevant @ [u]) others
      else bucket_loop normalized relevant (others @ [u]))"

fun unique_loop :: "string list \<Rightarrow> string set \<Rightarrow> string list \<Rightarrow> string list" where
  "unique_loop [] seen unique = unique"
| "unique_loop (u # urls) seen unique =
     (if u \<notin> seen then unique_loop urls (insert u seen) (unique @ [u])
      else unique_loop urls seen unique)"

definition extract_images :: "(string \<Rightarrow> string list) list \<Rightarrow> string \<Rightarrow> string \<Rightarrow> int \<Rightarrow> string list" where
  "extract_images IMG_PATTERNS readme mid max_images =
     (let raw = concat (map (\<lambda>findall. findall readme) IMG_PATTERNS);
          normalized = normalize_loop mid raw [];
          (relevant, others) = bucket_loop normalized [] [];
          unique = unique_loop (relevant @ others) {} []
      in py_slice_to max_images unique)"

text \<open>
  The collaborators of \<open>_gather_context\<close> are the fields of a record: each awaited call
  either returns or raises. \<open>get_readme\<close> is the HTTP request of
  \<open>get_readme_with_images\<close> (404, any failure, or the full text), \<open>cut_readme\<close> the cut
  of the text to \<open>max_length\<close>, \<open>to_context\<close> the formatting of a model for the prompt,
  \<open>news_query\<close> the query built for the news intent.
\<close>

datatype readme_response = ReadmeNotFound | ReadmeFailed | ReadmeText string

record hit =
  title :: string
  body :: string
  href :: string

record intent_data =
  intent :: string
  models :: "string list"
  normalized_queries :: "string list"

record 'm services =
  get_model_info :: "string \<Rightarrow> fetch_error + 'm option"
  search_models :: "string \<Rightarrow> nat \<Rightarrow> fetch_error + 'm list"
  get_readme :: "string \<Rightarrow> readme_response"
  cut_readme :: "string \<Rightarrow> string"
  IMG_PATTERNS :: "(string \<Rightarrow> string list) list"
  id_of :: "'m \<Rightarrow> string"
  to_context :: "'m \<Rightarrow> string option \<Rightarrow> string"
  extract_urls :: "string \<Rightarrow> string list"
  fetch_arxiv_paper :: "string \<Rightarrow> fetch_error + string option"
  fetch_url_text :: "string \<Rightarrow> fetch_error + string option"
  needs_search :: "string \<Rightarrow> bool"
  available :: bool
  news_query :: "string \<Rightarrow> string"
  build_query :: "string \<Rightarrow> string"
  web_search :: "string \<Rightarrow> nat \<Rightarrow> fetch_error + hit list"
  format_results :: "hit list \<Rightarrow> string"

definition get_readme_with_images :: "'m services \<Rightarrow> string \<Rightarrow> string option \<times> string list" where
  "get_readme_with_images svc mid =
     (case get_readme svc mid of
        ReadmeNotFound \<Rightarrow> (None, [])
      | ReadmeFailed \<Rightarrow> (None, [])
      | ReadmeText full \<Rightarrow>
          (let images = extract_images (IMG_PATTERNS svc) full mid 3
           in (Some (cut_readme svc full), images)))"

definition truthy :: "string option \<Rightarrow> bool" where
  "truthy t \<longleftrightarrow> (case t of None \<Rightarrow> False | Some s \<Rightarrow> s \<noteq> [])"

definition fetch_model :: "'m services \<Rightarrow> bool \<Rightarrow> string \<Rightarrow> string option \<times> string list" where
  "fetch_model svc is_compare mid =
     (if is_compare then
        (case get_model_info svc mid of
           Inl e \<Rightarrow> (None, [])
         | Inr model \<Rightarrow>
             (case get_readme_with_images svc mid of
                (readme, imgs) \<Rightarrow>
                  (case model of
                     None \<Rightarrow> (None, [])
                   | Some m \<Rightarrow> (Some (to_context svc m readme), imgs))))
      else
        (case get_model_info svc mid of
           Inl e \<Rightarrow> (None, [])
         | Inr None \<Rightarrow> (None, [])
         | Inr (Some m) \<Rightarrow> (Some (to_context svc m None), [])))"

definition search_and_fetch :: "'m services \<Rightarrow> bool \<Rightarrow> string \<Rightarrow> string option \<times> string list" where
  "search_and_fetch svc is_compare q =
     (case search_models svc q 1 of
        Inl e \<Rightarrow> (None, [])
      | Inr [] \<Rightarrow> (None, [])
      | Inr (model # rest) \<Rightarrow>
          (case (if is_compare then get_readme_with_images svc (id_of svc model) else (None, [])) of
             (readme, imgs) \<Rightarrow> (Some (to_context svc model readme), imgs)))"

definition is_arxiv_url :: "string \<Rightarrow> bool" where
  "is_arxiv_url u \<longleftrightarrow> str_contains (lower u) ''arxiv''"

definition do_web_search :: "'m services \<Rightarrow> bool \<Rightarrow> string \<Rightarrow> hit list" where
  "do_web_search svc is_news user_text =
     (let query = (if is_news then news_query svc user_text else build_query svc user_text)
      in case web_search svc query 3 of Inl e \<Rightarrow> [] | Inr hits \<Rightarrow> hits)"

text \<open>
  A task is its type tag together with what awaiting it gives. The wrappers
  \<open>_fetch_model\<close>, \<open>_search_and_fetch\<close> and \<open>_do_web_search\<close> catch what their calls
  raise; a task as such can still fail (a timeout, a cancellation).
\<close>

datatype task =
    ModelTask "fetch_error + string option \<times> string list"
  | SearchTask "fetch_error + string option \<times> string list"
  | ArxivTask "fetch_error + string option"
  | UrlTask "fetch_error + string option"
  | WebTask "fetch_error + hit list"

definition build_tasks :: "'m services \<Rightarrow> string \<Rightarrow> intent_data \<Rightarrow> task list" where
  "build_tasks svc user_text idata =
     (let user_urls = take 3 (extract_urls svc user_text);
          is_compare = (intent idata = ''compare'');
          hf_tasks =
            (if intent idata = ''compare'' \<or> intent idata = ''info'' then
               map (\<lambda>mid. ModelTask (Inr (fetch_model svc is_compare mid))) (models idata) @
               map (\<lambda>q. SearchTask (Inr (search_and_fetch svc is_compare q)))
                 (normalized_queries idata)
             else []);
          url_tasks =
            map (\<lambda>u. if is_arxiv_url u then ArxivTask (fetch_arxiv_paper svc u)
                      else UrlTask (fetch_url_text svc u)) user_urls;
          is_news = (intent idata = ''news'');
          should_search = (is_news \<or> needs_search svc user_text);
          web_tasks =
            (if should_search \<and> available svc
             then [WebTask (Inr (do_web_search svc is_news user_text))] else [])
      in hf_tasks @ url_tasks @ web_tasks)"

fun task_error :: "task \<Rightarrow> fetch_error option" where
  "task_error (ModelTask r) = (case r of Inl e \<Rightarrow> Some e | Inr v \<Rightarrow> None)"
| "task_error (SearchTask r) = (case r of Inl e \<Rightarrow> Some e | Inr v \<Rightarrow> None)"
| "task_error (ArxivTask r) = (case r of Inl e \<Rightarrow> Some e | Inr v \<Rightarrow> None)"
| "task_error (UrlTask r) = (case r of Inl e \<Rightarrow> Some e | Inr v \<Rightarrow> None)"
| "task_error (WebTask r) = (case r of Inl e \<Rightarrow> Some e | Inr v \<Rightarrow> None)"

definition failed :: "task \<Rightarrow> bool" where
  "failed t \<longleftrightarrow> task_error t \<noteq> None"

fun task_images :: "task \<Rightarrow> string list" where
  "task_images (ModelTask r) = (case r of Inl e \<Rightarrow> [] | Inr v \<Rightarrow> snd v)"
| "task_images (SearchTask r) = (case r of Inl e \<Rightarrow> [] | Inr v \<Rightarrow> snd v)"
| "task_images (ArxivTask r) = []"
| "task_images (UrlTask r) = []"
| "task_images (WebTask r) = []"

text \<open>
  What one task gives to each list of the classification: its text to \<open>models_data\<close>
  (\<open>if text\<close>), its page to \<open>url_contents\<close> (\<open>and result\<close>), its hits to
  \<open>search_results\<close> (the last web task that returned sets it); a task that failed gives
  nothing.
\<close>

fun task_texts :: "task \<Rightarrow> string list" where
  "task_texts (ModelTask r) =
     (case r of Inl e \<Rightarrow> [] | Inr v \<Rightarrow> (case fst v of None \<Rightarrow> [] | Some t \<Rightarrow> if t \<noteq> [] then [t] else []))"
| "task_texts (SearchTask r) =
     (case r of Inl e \<Rightarrow> [] | Inr v \<Rightarrow> (case fst v of None \<Rightarrow> [] | Some t \<Rightarrow> if t \<noteq> [] then [t] else []))"
| "task_texts (ArxivTask r) = []"
| "task_texts (UrlTask r) = []"
| "task_texts (WebTask r) = []"

fun task_pages :: "task \<Rightarrow> string list" where
  "task_pages (ArxivTask r) =
     (case r of Inl e \<Rightarrow> [] | Inr v \<Rightarrow> (case v of None \<Rightarrow> [] | Some t \<Rightarrow> if t \<noteq> [] then [t] else []))"
| "task_pages (UrlTask r) =
     (case r of Inl e \<Rightarrow> [] | Inr v \<Rightarrow> (case v of None \<Rightarrow> [] | Some t \<Rightarrow> if t \<noteq> [] then [t] else []))"
| "task_pages (ModelTask r) = []"
| "task_pages (SearchTask r) = []"
| "task_pages (WebTask r) = []"

fun task_hits :: "task \<Rightarrow> hit list option" where
  "task_hits (WebTask r) = (case r of Inl e \<Rightarrow> None | Inr hits \<Rightarrow> Some hits)"
| "task_hits (ModelTask r) = None"
| "task_hits (SearchTask r) = None"
| "task_hits (ArxivTask r) = None"
| "task_hits (UrlTask r) = None"

definition last_hits :: "task list \<Rightarrow> hit list" where
  "last_hits ts = (case List.map_filter task_hits ts of [] \<Rightarrow> [] | h # hs \<Rightarrow> last (h # hs))"

text \<open>
  \<open>asyncio.gather\<close>: with \<open>return_exceptions=True\<close> every outcome, raised or returned,
  is an element of the result; without it the first exception is raised.
\<close>

definition asyncio_gather :: "bool \<Rightarrow> task list \<Rightarrow> fetch_error + task list" where
  "asyncio_gather return_exceptions tasks =
     (if return_exceptions then Inr tasks
      else (case List.map_filter task_error tasks of [] \<Rightarrow> Inr tasks | e # es \<Rightarrow> Inl e))"

text \<open>The loop over the results, and the assembly of the context.\<close>

record collected =
  models_data :: "string list"
  search_results :: "hit list"
  url_contents :: "string list"
  all_images :: "string list"

definition classify_text :: "collected \<Rightarrow> string option \<times> string list \<Rightarrow> collected" where
  "classify_text acc r =
     (case r of (text, imgs) \<Rightarrow>
        (let acc1 = (case text of
                       None \<Rightarrow> acc
                     | Some t \<Rightarrow> if t \<noteq> [] then acc\<lparr>models_data := models_data acc @ [t]\<rparr> else acc)
         in if imgs \<noteq> [] then acc1\<lparr>all_images := all_images acc1 @ imgs\<rparr> else acc1))"

definition classify_url :: "collected \<Rightarrow> string option \<Rightarrow> collected" where
  "classify_url acc r =
     (case r of
        None \<Rightarrow> acc
      | Some t \<Rightarrow> if t \<noteq> [] then acc\<lparr>url_contents := url_contents acc @ [t]\<rparr> else acc)"

fun classify :: "collected \<Rightarrow> task \<Rightarrow> collected" where
  "classify acc (ModelTask r) = (case r of Inl e \<Rightarrow> acc | Inr v \<Rightarrow> classify_text acc v)"
| "classify acc (SearchTask r) = (case r of Inl e \<Rightarrow> acc | Inr v \<Rightarrow> classify_text acc v)"
| "classify acc (WebTask r) = (case r of Inl e \<Rightarrow> acc | Inr hits \<Rightarrow> acc\<lparr>search_results := hits\<rparr>)"
| "classify acc (UrlTask r) = (case r of Inl e \<Rightarrow> acc | Inr v \<Rightarrow> classify_url acc v)"
| "classify acc (ArxivTask r) = (case r of Inl e \<Rightarrow> acc | Inr v \<Rightarrow> classify_url acc v)"

record gathered_context =
  hf_context :: "string option"
  url_context :: "string option"
  web_context :: "string option"
  image_urls :: "string list"

fun unique_by_key :: "string list \<Rightarrow> string set \<Rightarrow> string list \<Rightarrow> string list" where
  "unique_by_key [] seen unique = unique"
| "unique_by_key (d # ds) seen unique =
     (let key = takeWhile (\<lambda>c. c \<noteq> newline) d
      in if key \<notin> seen then unique_by_key ds (insert key seen) (unique @ [d])
         else unique_by_key ds seen unique)"

definition assemble :: "'m services \<Rightarrow> task list \<Rightarrow> gathered_context" where
  "assemble svc results =
     (let acc = foldl classify
                  \<lparr>models_data = [], search_results = [], url_contents = [], all_images = []\<rparr>
                  results
      in \<lparr>hf_context =
            (if models_data acc \<noteq> []
             then Some (join [newline, newline] (take 4 (unique_by_key (models_data acc) {} [])))
             else None),
          url_context =
            (if url_contents acc \<noteq> [] then Some (join [newline, newline] (url_contents acc))
             else None),
          web_context =
            (if search_results acc \<noteq> [] then Some (format_results svc (search_results acc))
             else None),
          image_urls = take 3 (all_images acc)\<rparr>)"

definition gather_context :: "'m services \<Rightarrow> string \<Rightarrow> intent_data \<Rightarrow> fetch_error + gathered_context" where
  "gather_context svc user_text idata =
     (let tasks = build_tasks svc user_text idata
      in if tasks \<noteq> [] then
           (case asyncio_gather True tasks of
              Inl e \<Rightarrow> Inl e
            | Inr results \<Rightarrow> Inr (assemble svc results))
         else Inr (assemble svc []))"

subsection \<open>Example inputs for the aggregator\<close>

definition demo_services :: "string services" where
  "demo_services =
     \<lparr>get_model_info = (\<lambda>mid. Inr (Some mid)),
      search_models = (\<lambda>q n. Inr [''acme/m'']),
      get_readme = (\<lambda>mid. ReadmeText ''![scores](chart.png)''),
      cut_readme = (\<lambda>full. full),
      IMG_PATTERNS = [\<lambda>readme. if readme = ''![scores](chart.png)'' then [''chart.png''] else [],
                      \<lambda>readme. []],
      id_of = (\<lambda>m. m),
      to_context = (\<lambda>m readme. ''=== '' @ m @ '' ===''),
      extract_urls = (\<lambda>t. [''https://arxiv.org/abs/2401.00001'', ''https://example.org/post'']),
      fetch_arxiv_paper = (\<lambda>u. Inl TimeoutError),
      fetch_url_text = (\<lambda>u. Inr (Some ''page text'')),
      needs_search = (\<lambda>t. False),
      available = False,
      news_query = (\<lambda>t. t),
      build_query = (\<lambda>t. t),
      web_search = (\<lambda>q n. Inr []),
      format_results = (\<lambda>hits. [])\<rparr>"

definition demo_intent :: intent_data where
  "demo_intent = \<lparr>intent = ''compare'', models = [''acme/m''], normalized_queries = [''m'']\<rparr>"

text \<open>Five tasks of which two fail.\<close>

definition five_tasks :: "task list" where
  "five_tasks =
     [ModelTask (Inr (Some ''=== acme/m ==='', [''https://huggingface.co/acme/m/resolve/main/chart.png''])),
      UrlTask (Inl ClientError),
      ArxivTask (Inl TimeoutError),
      UrlTask (Inr (Some ''page text'')),
      WebTask (Inr [\<lparr>title = ''news'', body = ''summary'', href = ''https://example.org''\<rparr>])]"

definition demo_patterns :: "(string \<Rightarrow> string list) list" where
  "demo_patterns = [\<lambda>readme. ['' fig/Chart.png '', ''logo.png'', ''./a.png'', ''a.png''], \<lambda>readme. [''b/eval.jpg'']]"

section \<open>handlers.py: the duel session and its timers\<close>

text \<open>
  The handlers run on one event loop: between two \<open>await\<close>s a handler is atomic, and at
  an \<open>await\<close> other handlers and job callbacks may run. \<open>_handle_battle_evaluate\<close>
  awaits the verdict of the language model before it touches the session, so it is two
  steps: \<open>handle_battle_evaluate_begin\<close> (the placeholder message is sent, the call is
  pending) and \<open>handle_battle_evaluate_end\<close> (the code after the call returned).
  \<open>jobs\<close> holds the names of the pending jobs of the job queue, \<open>outbox\<close> the messages
  in the order they are produced, \<open>evaluating\<close> the pending evaluations.
\<close>

record battle =
  question :: string
  answer :: string
  qtype :: string

datatype message = ThinkingMsg | ResultMsg string | EvalFailedMsg | ReminderMsg | TimeoutMsg

record duel =
  battles :: "string \<rightharpoonup> battle"
  jobs :: "string list"
  outbox :: "(string \<times> message) list"
  evaluating :: "(string \<times> battle \<times> string) list"

definition reminder_name :: "string \<Rightarrow> string" where
  "reminder_name chat_id = ''battle_reminder_'' @ chat_id"

definition timeout_name :: "string \<Rightarrow> string" where
  "timeout_name chat_id = ''battle_timeout_'' @ chat_id"

definition battle_reminder :: "string \<Rightarrow> duel \<Rightarrow> duel" where
  "battle_reminder chat_id s =
     (case battles s chat_id of
        None \<Rightarrow> s
      | Some b \<Rightarrow>
          s\<lparr>outbox := outbox s @ [(chat_id, ReminderMsg)],
            jobs := jobs s @ [timeout_name chat_id]\<rparr>)"

definition battle_final_timeout :: "string \<Rightarrow> duel \<Rightarrow> duel" where
  "battle_final_timeout chat_id s =
     (case battles s chat_id of
        None \<Rightarrow> s
      | Some b \<Rightarrow>
          s\<lparr>battles := (battles s)(chat_id := None),
            outbox := outbox s @ [(chat_id, TimeoutMsg)]\<rparr>)"

definition handle_battle_evaluate_begin :: "string \<Rightarrow> battle \<Rightarrow> string \<Rightarrow> duel \<Rightarrow> duel" where
  "handle_battle_evaluate_begin chat_id b gigachat_response s =
     s\<lparr>outbox := outbox s @ [(chat_id, ThinkingMsg)],
       evaluating := evaluating s @ [(chat_id, b, gigachat_response)]\<rparr>"

definition handle_battle_evaluate_end :: "string \<Rightarrow> string option \<Rightarrow> duel \<Rightarrow> duel" where
  "handle_battle_evaluate_end chat_id evaluation s =
     (let s1 = (case battles s chat_id of
                  None \<Rightarrow> s
                | Some b \<Rightarrow> s\<lparr>battles := (battles s)(chat_id := None)\<rparr>);
          s2 = s1\<lparr>jobs := filter (\<lambda>n. n \<noteq> reminder_name chat_id \<and> n \<noteq> timeout_name chat_id)
                              (jobs s1)\<rparr>
      in (case evaluation of
            None \<Rightarrow> s2\<lparr>outbox := outbox s2 @ [(chat_id, EvalFailedMsg)]\<rparr>
          | Some verdict \<Rightarrow>
              if verdict = [] then s2\<lparr>outbox := outbox s2 @ [(chat_id, EvalFailedMsg)]\<rparr>
              else s2\<lparr>outbox := outbox s2 @ [(chat_id, ResultMsg verdict)]\<rparr>))"

definition handle_message :: "string \<Rightarrow> bool \<Rightarrow> string \<Rightarrow> duel \<Rightarrow> duel" where
  "handle_message chat_id is_reply user_text s =
     (case battles s chat_id of
        None \<Rightarrow> s
      | Some b \<Rightarrow> if is_reply then s else handle_battle_evaluate_begin chat_id b user_text s)"

text \<open>
  What can happen next: a qualifying message arrives (\<open>handle_message\<close>, battle branch),
  the language model answers a pending evaluation, or a scheduled job fires.
\<close>

datatype event =
    Mention string bool string
  | LLMReturns string "string option"
  | ReminderFires string
  | TimeoutFires string

fun step :: "duel \<Rightarrow> event \<Rightarrow> duel" where
  "step s (Mention chat_id is_reply user_text) = handle_message chat_id is_reply user_text s"
| "step s (LLMReturns chat_id evaluation) =
     (case find (\<lambda>p. fst p = chat_id) (evaluating s) of
        None \<Rightarrow> s
      | Some p \<Rightarrow>
          handle_battle_evaluate_end chat_id evaluation
            (s\<lparr>evaluating := remove1 p (evaluating s)\<rparr>))"
| "step s (ReminderFires chat_id) =
     (if reminder_name chat_id \<in> set (jobs s)
      then battle_reminder chat_id (s\<lparr>jobs := remove1 (reminder_name chat_id) (jobs s)\<rparr>)
      else s)"
| "step s (TimeoutFires chat_id) =
     (if timeout_name chat_id \<in> set (jobs s)
      then battle_final_timeout chat_id (s\<lparr>jobs := remove1 (timeout_name chat_id) (jobs s)\<rparr>)
      else s)"

definition run :: "duel \<Rightarrow> event list \<Rightarrow> duel" where
  "run s evs = foldl step s evs"

definition a_battle :: battle where
  "a_battle = \<lparr>question = ''2+2?'', answer = ''4'', qtype = ''serious''\<rparr>"

definition active_duel :: duel where
  "active_duel = \<lparr>battles = [''42'' \<mapsto> a_battle], jobs = [timeout_name ''42''],
     outbox = [], evaluating = []\<rparr>"

section \<open>Properties of the poll cycle\<close>

lemma set_dedup_loop: "set (dedup_loop ms seen acc) = set acc \<union> (model_id ` set ms - seen)"
  by (induction ms arbitrary: seen acc) (auto simp: Let_def)

lemma distinct_dedup_loop: "distinct acc \<Longrightarrow> set acc \<subseteq> seen \<Longrightarrow> distinct (dedup_loop ms seen acc)"
proof (induction ms arbitrary: seen acc)
  case Nil
  then show ?case by simp
next
  case (Cons m ms)
  show ?case
  proof (cases "model_id m \<in> seen")
    case True
    then show ?thesis using Cons by simp
  next
    case False
    have "distinct (acc @ [model_id m])" using Cons.prems False by auto
    moreover have "set (acc @ [model_id m]) \<subseteq> insert (model_id m) seen" using Cons.prems by auto
    ultimately have "distinct (dedup_loop ms (insert (model_id m) seen) (acc @ [model_id m]))"
      by (rule Cons.IH)
    then show ?thesis using False by (simp add: Let_def)
  qed
qed

lemma set_dedup: "set (dedup ms) = model_id ` set ms"
  by (simp add: dedup_def set_dedup_loop)

lemma distinct_dedup: "distinct (dedup ms)"
  by (simp add: dedup_def distinct_dedup_loop)

lemma dedup_loop_distinct_id:
  "distinct (map model_id ms) \<Longrightarrow> model_id ` set ms \<inter> seen = {} \<Longrightarrow> dedup_loop ms seen acc = acc @ map model_id ms"
  by (induction ms arbitrary: seen acc) (auto simp: Let_def)

lemma dedup_distinct_id: "distinct (map model_id ms) \<Longrightarrow> dedup ms = map model_id ms"
  by (simp add: dedup_def dedup_loop_distinct_id)

lemma dedup_Nil_iff: "dedup ms = [] \<longleftrightarrow> ms = []"
  using set_dedup[of ms] by (cases ms) auto

lemma get_models_single [simp]: "get_models [(''models'', ids)] = ids"
  by (simp add: get_models_def)

lemma filter_notin_self: "filter (\<lambda>x. x \<notin> set xs) xs = []"
  by (simp add: filter_empty_conv)

lemma new_main_ids_Nil [simp]: "new_main_ids prev [] = []"
  by (simp add: new_main_ids_def dedup_def)

lemma new_main_ids_self [simp]: "new_main_ids (dedup ms) ms = []"
  by (simp add: new_main_ids_def filter_notin_self)

lemma poll_org_char:
  "poll_org c (p, ms) =
     c\<lparr>st := (if differs (st c) p ms
               then (st c)\<lparr>orgs := (orgs (st c))(p \<mapsto> [(''models'', dedup ms)])\<rparr>
               else st c),
       sent := sent c @ notes_for (st c) p ms,
       changed := (changed c \<or> differs (st c) p ms)\<rparr>"
proof (cases "ms = []")
  case True
  then show ?thesis
    by (simp add: poll_org_def differs_def notes_for_def split: option.splits)
next
  case ne: False
  show ?thesis
  proof (cases "stored_models (st c) p")
    case None
    then show ?thesis using ne
      by (auto simp: poll_org_def differs_def notes_for_def stored_models_def store_models_def Let_def
               split: option.splits if_splits)
  next
    case (Some prev)
    then obtain d where d: "orgs (st c) p = Some d" "d \<noteq> []" "prev = get_models d"
      by (auto simp: stored_models_def split: option.splits if_splits)
    show ?thesis
    proof (cases "filter (\<lambda>mid. mid \<notin> set prev) (dedup ms) = []")
      case True
      then have nm: "new_main_ids prev ms = []" by (simp add: new_main_ids_def)
      show ?thesis using ne d True nm Some
        by (simp add: poll_org_def differs_def notes_for_def store_models_def Let_def)
    next
      case False
      then have "prev \<noteq> dedup ms" using filter_notin_self[of "dedup ms"] by auto
      then show ?thesis using ne d False Some
        by (simp add: poll_org_def differs_def notes_for_def store_models_def Let_def new_main_ids_def)
    qed
  qed
qed

lemma stored_models_cong: "orgs s p = orgs s' p \<Longrightarrow> stored_models s p = stored_models s' p"
  by (simp add: stored_models_def)

lemma differs_cong: "orgs s p = orgs s' p \<Longrightarrow> differs s p ms = differs s' p ms"
  using stored_models_cong[of s p s'] by (simp add: differs_def)

lemma notes_for_cong: "orgs s p = orgs s' p \<Longrightarrow> notes_for s p ms = notes_for s' p ms"
  using stored_models_cong[of s p s'] by (simp add: notes_for_def)

lemma for_org_notes_same [simp]:
  "for_org p (notes_for s p ms) =
     (case stored_models s p of None \<Rightarrow> [] | Some prev \<Rightarrow> rev (new_main_ids prev ms))"
  by (simp add: for_org_def notes_for_def comp_def split: option.splits)

lemma for_org_notes_other [simp]: "q \<noteq> p \<Longrightarrow> for_org p (notes_for s q ms) = []"
  by (auto simp: for_org_def notes_for_def filter_empty_conv split: option.splits)

lemma for_org_append [simp]: "for_org p (xs @ ys) = for_org p xs @ for_org p ys"
  by (simp add: for_org_def)

lemma step_orgs_other: "q \<noteq> p \<Longrightarrow> orgs (st (poll_org c (q, ms))) p = orgs (st c) p"
  by (simp add: poll_org_char)

lemma step_sent_other: "q \<noteq> p \<Longrightarrow> for_org p (sent (poll_org c (q, ms))) = for_org p (sent c)"
  by (simp add: poll_org_char)

lemma step_quiet: "\<not> differs (st c) p ms \<Longrightarrow> notes_for (st c) p ms = [] \<Longrightarrow> poll_org c (p, ms) = c"
  by (simp add: poll_org_char)

lemma not_differs_notes: "\<not> differs s p ms \<Longrightarrow> notes_for s p ms = []"
  by (auto simp: differs_def notes_for_def split: option.splits)

lemma step_noop: "\<not> differs (st c) p ms \<Longrightarrow> poll_org c (p, ms) = c"
  by (simp add: step_quiet not_differs_notes)

lemma step_settles: "\<not> differs (st (poll_org c (p, ms))) p ms"
  by (simp add: poll_org_char differs_def stored_models_def)

lemma step_changed_mono: "changed c \<Longrightarrow> changed (poll_org c r)"
  by (cases r) (simp add: poll_org_char)

lemma step_frame:
  "chat_users (st (poll_org c r)) = chat_users (st c) \<and>
   question_bank (st (poll_org c r)) = question_bank (st c)"
  by (cases r) (simp add: poll_org_char)

lemma fold_changed_mono: "changed c \<Longrightarrow> changed (foldl poll_org c rs)"
  by (induction rs arbitrary: c) (simp_all add: step_changed_mono)

lemma fold_frame:
  "chat_users (st (foldl poll_org c rs)) = chat_users (st c) \<and>
   question_bank (st (foldl poll_org c rs)) = question_bank (st c)"
  by (induction rs arbitrary: c) (simp_all add: step_frame)

text \<open>Once a publisher is settled, the rest of the loop leaves it alone.\<close>

lemma fold_settled:
  assumes "\<not> differs (st c) p ms" and "\<forall>r\<in>set rs. fst r = p \<longrightarrow> snd r = ms"
  shows "orgs (st (foldl poll_org c rs)) p = orgs (st c) p \<and>
         for_org p (sent (foldl poll_org c rs)) = for_org p (sent c)"
  using assms
proof (induction rs arbitrary: c)
  case Nil
  then show ?case by simp
next
  case (Cons r rs)
  obtain q qs where r: "r = (q, qs)" by (cases r)
  show ?case
  proof (cases "q = p")
    case True
    then have "poll_org c r = c" using Cons.prems r by (simp add: step_noop)
    then show ?thesis using Cons by simp
  next
    case False
    have o: "orgs (st (poll_org c r)) p = orgs (st c) p" using False r by (simp add: step_orgs_other)
    have s: "for_org p (sent (poll_org c r)) = for_org p (sent c)"
      using False r by (simp add: step_sent_other)
    have "\<not> differs (st (poll_org c r)) p ms" using Cons.prems(1) differs_cong[OF o] by simp
    then show ?thesis using Cons.IH[of "poll_org c r"] Cons.prems(2) o s by simp
  qed
qed


lemma fold_org:
  assumes "p \<in> fst ` set rs" and "\<forall>r\<in>set rs. fst r = p \<longrightarrow> snd r = ms"
  shows "orgs (st (foldl poll_org c rs)) p =
           (if differs (st c) p ms then Some [(''models'', dedup ms)] else orgs (st c) p) \<and>
         for_org p (sent (foldl poll_org c rs)) = for_org p (sent c) @ for_org p (notes_for (st c) p ms) \<and>
         (differs (st c) p ms \<longrightarrow> changed (foldl poll_org c rs))"
  using assms
proof (induction rs arbitrary: c)
  case Nil
  then show ?case by simp
next
  case (Cons r rs)
  obtain q qs where r: "r = (q, qs)" by (cases r)
  show ?case
  proof (cases "q = p")
    case True
    then have r': "r = (p, ms)" using Cons.prems(2) r by simp
    let ?c = "poll_org c (p, ms)"
    have settled: "\<not> differs (st ?c) p ms" by (rule step_settles)
    have rest: "\<forall>r\<in>set rs. fst r = p \<longrightarrow> snd r = ms" using Cons.prems(2) by simp
    note fs = fold_settled[OF settled rest]
    have ch: "differs (st c) p ms \<Longrightarrow> changed (foldl poll_org ?c rs)"
      by (rule fold_changed_mono) (simp add: poll_org_char)
    show ?thesis using fs ch unfolding r' by (simp add: poll_org_char del: for_org_notes_same)
  next
    case False
    then have mem: "p \<in> fst ` set rs" using Cons.prems(1) r by auto
    have rest: "\<forall>r\<in>set rs. fst r = p \<longrightarrow> snd r = ms" using Cons.prems(2) by simp
    have o: "orgs (st (poll_org c r)) p = orgs (st c) p" using False r by (simp add: step_orgs_other)
    have s: "for_org p (sent (poll_org c r)) = for_org p (sent c)"
      using False r by (simp add: step_sent_other)
    show ?thesis
      using Cons.IH[OF mem rest, of "poll_org c r"] o s differs_cong[OF o, of ms] notes_for_cong[OF o, of ms]
      by (simp del: for_org_notes_same)
  qed
qed

lemma fst_fetch [simp]: "fst (fetch hf p) = p"
  by (simp add: fetch_def split: sum.splits)

lemma snd_fetch_Inr [simp]: "hf p = Inr ms \<Longrightarrow> snd (fetch hf p) = ms"
  by (simp add: fetch_def)

lemma snd_fetch_Inl [simp]: "hf p = Inl e \<Longrightarrow> snd (fetch hf p) = []"
  by (simp add: fetch_def)

lemma results_consistent:
  "\<forall>r\<in>set (map (fetch hf) org_list). fst r = p \<longrightarrow> snd r = snd (fetch hf p)"
  by auto

lemma results_mem: "p \<in> set org_list \<Longrightarrow> p \<in> fst ` set (map (fetch hf) org_list)"
  by (force simp: image_iff)

lemma for_org_empty_iff: "for_org p ns = [] \<longleftrightarrow> (\<forall>m. (p, m) \<notin> set ns)"
  by (auto simp: for_org_def filter_empty_conv)

lemma poll_once_state:
  "state (poll_once org_list s hf) = st (foldl poll_org \<lparr>st = s, sent = [], changed = False\<rparr> (map (fetch hf) org_list))"
  by (simp add: poll_once_def Let_def)

lemma poll_once_notified:
  "notified (poll_once org_list s hf) = sent (foldl poll_org \<lparr>st = s, sent = [], changed = False\<rparr> (map (fetch hf) org_list))"
  by (simp add: poll_once_def Let_def)

lemma poll_once_saves:
  "saves (poll_once org_list s hf) =
     (let c = foldl poll_org \<lparr>st = s, sent = [], changed = False\<rparr> (map (fetch hf) org_list)
      in if changed c then [st c] else [])"
  by (simp add: poll_once_def Let_def)

lemma poll_once_org:
  assumes "p \<in> set org_list"
  shows "orgs (state (poll_once org_list s hf)) p =
           (if differs s p (snd (fetch hf p)) then Some [(''models'', dedup (snd (fetch hf p)))]
            else orgs s p)"
    and "for_org p (notified (poll_once org_list s hf)) = for_org p (notes_for s p (snd (fetch hf p)))"
    and "differs s p (snd (fetch hf p)) \<Longrightarrow>
           saves (poll_once org_list s hf) = [state (poll_once org_list s hf)]"
proof -
  let ?c = "\<lparr>st = s, sent = [], changed = False\<rparr>"
  let ?rs = "map (fetch hf) org_list"
  have mem: "p \<in> fst ` set ?rs" using assms by (rule results_mem)
  have cons: "\<forall>r\<in>set ?rs. fst r = p \<longrightarrow> snd r = snd (fetch hf p)"
    by (rule results_consistent)
  note f = fold_org[OF mem cons, of ?c]
  show "orgs (state (poll_once org_list s hf)) p =
           (if differs s p (snd (fetch hf p)) then Some [(''models'', dedup (snd (fetch hf p)))]
            else orgs s p)"
    using f by (simp add: poll_once_state)
  show "for_org p (notified (poll_once org_list s hf)) = for_org p (notes_for s p (snd (fetch hf p)))"
    using f by (simp add: poll_once_notified for_org_def del: for_org_notes_same)
  show "differs s p (snd (fetch hf p)) \<Longrightarrow>
           saves (poll_once org_list s hf) = [state (poll_once org_list s hf)]"
    using f by (simp add: poll_once_saves poll_once_state Let_def)
qed

text \<open>
  Claim C10. When the fetch of a publisher yields no items in a cycle, because the
  client raised (turned into the empty listing by \<open>_fetch\<close>) or because the listing
  is empty, the entry of that publisher in the state is what it was before the cycle
  (not overwritten, not deleted), and no notification is sent for that publisher. The
  other parts of the document are not touched by a cycle either.
\<close>

theorem empty_fetch_keeps_state:
  assumes "hf org = Inr [] \<or> (\<exists>e. hf org = Inl e)"
  shows "orgs (state (poll_once org_list s hf)) org = orgs s org \<and>
         (\<forall>mid. (org, mid) \<notin> set (notified (poll_once org_list s hf))) \<and>
         chat_users (state (poll_once org_list s hf)) = chat_users s \<and>
         question_bank (state (poll_once org_list s hf)) = question_bank s"
proof -
  have e: "snd (fetch hf org) = []" using assms by auto
  have nd: "\<not> differs (st \<lparr>st = s, sent = [], changed = False\<rparr>) org []"
    by (simp add: differs_def)
  have cons: "\<forall>r\<in>set (map (fetch hf) org_list). fst r = org \<longrightarrow> snd r = []"
    using results_consistent[of hf org_list org] e by simp
  from fold_settled[OF nd cons] fold_frame[of "\<lparr>st = s, sent = [], changed = False\<rparr>" "map (fetch hf) org_list"]
  show ?thesis
    by (simp add: poll_once_state poll_once_notified for_org_empty_iff[symmetric] for_org_def)
qed

theorem empty_fetch_keeps_state_witness:
  "(acme_hf [] ''beta'' = Inr [] \<or> (\<exists>e. acme_hf [] ''beta'' = Inl e)) \<and>
   (acme_hf [] ''acme'' = Inr [] \<or> (\<exists>e. acme_hf [] ''acme'' = Inl e)) \<and>
   orgs (state (poll_once [''acme'', ''beta''] (acme_state [''acme/x-1'']) (acme_hf []))) ''acme''
     = orgs (acme_state [''acme/x-1'']) ''acme'' \<and>
   (\<forall>mid. (''acme'', mid)
      \<notin> set (notified (poll_once [''acme'', ''beta''] (acme_state [''acme/x-1'']) (acme_hf []))))"
  using empty_fetch_keeps_state[of "acme_hf []" "''acme''" "[''acme'', ''beta'']"
      "acme_state [''acme/x-1'']"]
  by (simp add: acme_hf_def)

lemma stored_models_Some:
  "orgs s p = Some d \<Longrightarrow> d \<noteq> [] \<Longrightarrow> stored_models s p = Some (get_models d)"
  by (simp add: stored_models_def)

lemma stored_models_None:
  "orgs s p = None \<or> orgs s p = Some [] \<Longrightarrow> stored_models s p = None"
  by (auto simp: stored_models_def)

text \<open>
  Claim C2. For a publisher that has stored state (a non-empty entry), the identifiers
  notified in a cycle are, in the order the notifications are made, the reverse of the
  fetched order of the main releases that are in the fetched listing and not in the
  stored list: each of them once, and none that is already stored.
\<close>

theorem new_main_releases_notified_oldest_first:
  assumes "org \<in> set org_list" and "orgs s org = Some org_state" and "org_state \<noteq> []"
  shows "for_org org (notified (poll_once org_list s hf)) =
           rev (filter (\<lambda>mid. \<not> is_derivative_model mid)
                  (filter (\<lambda>mid. mid \<notin> set (get_models org_state)) (dedup (snd (fetch hf org))))) \<and>
         set (for_org org (notified (poll_once org_list s hf))) =
           {mid \<in> model_id ` set (snd (fetch hf org)).
              mid \<notin> set (get_models org_state) \<and> \<not> is_derivative_model mid} \<and>
         distinct (for_org org (notified (poll_once org_list s hf)))"
proof -
  have sm: "stored_models s org = Some (get_models org_state)"
    using assms(2,3) by (rule stored_models_Some)
  have eq: "for_org org (notified (poll_once org_list s hf)) =
           rev (filter (\<lambda>mid. \<not> is_derivative_model mid)
                  (filter (\<lambda>mid. mid \<notin> set (get_models org_state)) (dedup (snd (fetch hf org)))))"
    using poll_once_org(2)[OF assms(1), of s hf] sm by (simp add: new_main_ids_def)
  show ?thesis
    unfolding eq by (auto simp: set_dedup distinct_dedup)
qed

theorem new_main_releases_notified_oldest_first_witness:
  "''acme'' \<in> set [''acme''] \<and>
   orgs (acme_state [''acme/A'', ''acme/B'']) ''acme''
     = Some [(''models'', [''acme/A'', ''acme/B''])] \<and>
   [(''models'', [''acme/A'', ''acme/B''])] \<noteq> ([] :: org_state) \<and>
   for_org ''acme'' (notified (poll_once [''acme''] (acme_state [''acme/A'', ''acme/B''])
       (acme_hf [''acme/D'', ''acme/C'', ''acme/A'', ''acme/B'']))) = [''acme/C'', ''acme/D'']"
proof -
  have h1: "''acme'' \<in> set [''acme'']" by simp
  have h2: "orgs (acme_state [''acme/A'', ''acme/B'']) ''acme''
      = Some [(''models'', [''acme/A'', ''acme/B''])]"
    by (simp add: acme_state_def)
  have h3: "[(''models'', [''acme/A'', ''acme/B''])] \<noteq> ([] :: org_state)" by simp
  have d: "\<not> is_derivative_model ''acme/C''" "\<not> is_derivative_model ''acme/D''"
    by (simp_all add: is_derivative_model_def lower_def lower_char_def split_slash_last_def
          endswith_any_def endswith_def DERIVATIVE_SUFFIXES_def)
  have f: "snd (fetch (acme_hf [''acme/D'', ''acme/C'', ''acme/A'', ''acme/B'']) ''acme'')
      = map fm [''acme/D'', ''acme/C'', ''acme/A'', ''acme/B'']"
    by (simp add: fetch_def acme_hf_def)
  show ?thesis
    using new_main_releases_notified_oldest_first[OF h1 h2 h3,
        of "acme_hf [''acme/D'', ''acme/C'', ''acme/A'', ''acme/B'']"] h2 d
    unfolding f
    by (simp add: dedup_def fm_def)
qed

text \<open>
  Claim C3. For a publisher without previous stored state (no entry, or the empty
  entry) and a non-empty fetched listing, the cycle sends no notification for it and
  stores the deduplicated fetched list: the identifiers of the listing, each once, and
  the listing itself when its identifiers are already distinct.
\<close>

theorem baseline_sync_is_silent:
  assumes "org \<in> set org_list" and "orgs s org = None \<or> orgs s org = Some []"
    and "hf org = Inr listing" and "listing \<noteq> []"
  shows "(\<forall>mid. (org, mid) \<notin> set (notified (poll_once org_list s hf))) \<and>
         orgs (state (poll_once org_list s hf)) org = Some [(''models'', dedup listing)] \<and>
         distinct (dedup listing) \<and> set (dedup listing) = model_id ` set listing \<and>
         (distinct (map model_id listing) \<longrightarrow> dedup listing = map model_id listing)"
proof -
  have sm: "stored_models s org = None" using assms(2) by (rule stored_models_None)
  have f: "snd (fetch hf org) = listing" using assms(3) by simp
  have d: "differs s org listing" using sm assms(4) by (simp add: differs_def)
  have "for_org org (notified (poll_once org_list s hf)) = []"
    using poll_once_org(2)[OF assms(1), of s hf] sm f by simp
  then have n: "\<forall>mid. (org, mid) \<notin> set (notified (poll_once org_list s hf))"
    by (simp add: for_org_empty_iff)
  have o: "orgs (state (poll_once org_list s hf)) org = Some [(''models'', dedup listing)]"
    using poll_once_org(1)[OF assms(1), of s hf] d f by simp
  show ?thesis using n o by (simp add: distinct_dedup set_dedup dedup_distinct_id)
qed

theorem baseline_sync_is_silent_witness:
  "''acme'' \<in> set [''beta'', ''acme''] \<and>
   (orgs (acme_state [] \<lparr>orgs := Map.empty\<rparr>) ''acme'' = None \<or>
    orgs (acme_state [] \<lparr>orgs := Map.empty\<rparr>) ''acme'' = Some []) \<and>
   acme_hf [''acme/x-2'', ''acme/x-1''] ''acme'' = Inr (map fm [''acme/x-2'', ''acme/x-1'']) \<and>
   map fm [''acme/x-2'', ''acme/x-1''] \<noteq> [] \<and>
   distinct (map model_id (map fm [''acme/x-2'', ''acme/x-1''])) \<and>
   (\<forall>mid. (''acme'', mid) \<notin> set (notified (poll_once [''beta'', ''acme'']
        (acme_state [] \<lparr>orgs := Map.empty\<rparr>) (acme_hf [''acme/x-2'', ''acme/x-1''])))) \<and>
   orgs (state (poll_once [''beta'', ''acme''] (acme_state [] \<lparr>orgs := Map.empty\<rparr>)
        (acme_hf [''acme/x-2'', ''acme/x-1'']))) ''acme''
     = Some [(''models'', [''acme/x-2'', ''acme/x-1''])]"
  using baseline_sync_is_silent[of "''acme''" "[''beta'', ''acme'']"
      "acme_state [] \<lparr>orgs := Map.empty\<rparr>" "acme_hf [''acme/x-2'', ''acme/x-1'']"
      "map fm [''acme/x-2'', ''acme/x-1'']"]
  by (simp add: acme_hf_def fm_def)

lemma step_sent_main:
  "\<forall>n\<in>set (sent c). \<not> is_derivative_model (snd n) \<Longrightarrow>
   \<forall>n\<in>set (sent (poll_org c r)). \<not> is_derivative_model (snd n)"
  by (cases r) (auto simp: poll_org_char notes_for_def new_main_ids_def split: option.splits)

lemma fold_sent_main:
  "\<forall>n\<in>set (sent c). \<not> is_derivative_model (snd n) \<Longrightarrow>
   \<forall>n\<in>set (sent (foldl poll_org c rs)). \<not> is_derivative_model (snd n)"
proof (induction rs arbitrary: c)
  case Nil
  then show ?case by simp
next
  case (Cons r rs)
  have "\<forall>n\<in>set (sent (poll_org c r)). \<not> is_derivative_model (snd n)"
    using Cons.prems by (rule step_sent_main)
  then show ?case using Cons.IH[of "poll_org c r"] by simp
qed

lemma notified_main: "(p, mid) \<in> set (notified (poll_once org_list s hf)) \<Longrightarrow> \<not> is_derivative_model mid"
  using fold_sent_main[of "\<lparr>st = s, sent = [], changed = False\<rparr>" "map (fetch hf) org_list"]
  by (auto simp: poll_once_notified)

lemma poll_once_settled:
  assumes "p \<in> set org_list" and "snd (fetch hf p) \<noteq> []"
  shows "stored_models (state (poll_once org_list s hf)) p = Some (dedup (snd (fetch hf p)))"
proof (cases "differs s p (snd (fetch hf p))")
  case True
  then show ?thesis using poll_once_org(1)[OF assms(1), of s hf] by (simp add: stored_models_def)
next
  case False
  then have "orgs (state (poll_once org_list s hf)) p = orgs s p"
    using poll_once_org(1)[OF assms(1), of s hf] by simp
  then have "stored_models (state (poll_once org_list s hf)) p = stored_models s p"
    by (rule stored_models_cong)
  then show ?thesis using False assms(2) by (simp add: differs_def)
qed

text \<open>
  Claim C4. An identifier of a fetched listing whose name part (after the first slash,
  in lower case) ends with a derivative suffix is never notified in the cycle, for any
  publisher, and is in the list stored for its publisher after the cycle. This covers
  every newly detected identifier.
\<close>

theorem derivative_recorded_not_notified:
  assumes "is_derivative_model mid" and "org \<in> set org_list"
    and "hf org = Inr listing" and "mid \<in> model_id ` set listing"
  shows "(\<forall>p. (p, mid) \<notin> set (notified (poll_once org_list s hf))) \<and>
         (\<exists>org_state. orgs (state (poll_once org_list s hf)) org = Some org_state \<and>
            mid \<in> set (get_models org_state))"
proof -
  have f: "snd (fetch hf org) = listing" using assms(3) by simp
  have ne: "listing \<noteq> []" using assms(4) by auto
  have "stored_models (state (poll_once org_list s hf)) org = Some (dedup listing)"
    using poll_once_settled[OF assms(2), of hf s] f ne by simp
  then obtain d where d: "orgs (state (poll_once org_list s hf)) org = Some d" "get_models d = dedup listing"
    by (auto simp: stored_models_def split: option.splits if_splits)
  have "mid \<in> set (get_models d)" using d(2) assms(4) by (simp add: set_dedup)
  then show ?thesis using d(1) notified_main[of _ mid org_list s hf] assms(1) by auto
qed

theorem derivative_recorded_not_notified_witness:
  "is_derivative_model ''acme/Model-GGUF'' \<and> ''acme'' \<in> set [''acme''] \<and>
   acme_hf [''acme/Model-GGUF'', ''acme/x-1''] ''acme''
     = Inr (map fm [''acme/Model-GGUF'', ''acme/x-1'']) \<and>
   ''acme/Model-GGUF'' \<in> model_id ` set (map fm [''acme/Model-GGUF'', ''acme/x-1'']) \<and>
   (\<forall>p. (p, ''acme/Model-GGUF'') \<notin> set (notified (poll_once [''acme'']
        (acme_state [''acme/x-1'']) (acme_hf [''acme/Model-GGUF'', ''acme/x-1''])))) \<and>
   (\<exists>org_state. orgs (state (poll_once [''acme''] (acme_state [''acme/x-1''])
        (acme_hf [''acme/Model-GGUF'', ''acme/x-1'']))) ''acme'' = Some org_state \<and>
      ''acme/Model-GGUF'' \<in> set (get_models org_state))"
proof -
  have h1: "is_derivative_model ''acme/Model-GGUF''" by code_simp
  have h2: "''acme'' \<in> set [''acme'']" by simp
  have h3: "acme_hf [''acme/Model-GGUF'', ''acme/x-1''] ''acme''
     = Inr (map fm [''acme/Model-GGUF'', ''acme/x-1''])"
    by (simp add: acme_hf_def)
  have h4: "''acme/Model-GGUF'' \<in> model_id ` set (map fm [''acme/Model-GGUF'', ''acme/x-1''])"
    by (simp add: fm_def)
  show ?thesis
    using derivative_recorded_not_notified[of "''acme/Model-GGUF''" "''acme''" "[''acme'']"
        "acme_hf [''acme/Model-GGUF'', ''acme/x-1'']" "map fm [''acme/Model-GGUF'', ''acme/x-1'']"
        "acme_state [''acme/x-1'']"] h1 h2 h3 h4
    by simp
qed





subsection \<open>The cycle on the examples of the specification\<close>

text \<open>
  One new model next to a stored one; a baseline of two models followed by two new ones
  (notified oldest first); a new technical variant (stored, not notified).
\<close>

lemma end_to_end_example:
  "notified (poll_once [''acme''] (acme_state [''acme/x-1'']) (acme_hf [''acme/x-2'', ''acme/x-1'']))
     = [(''acme'', ''acme/x-2'')] \<and>
   orgs (state (poll_once [''acme''] (acme_state [''acme/x-1''])
       (acme_hf [''acme/x-2'', ''acme/x-1'']))) ''acme''
     = Some [(''models'', [''acme/x-2'', ''acme/x-1''])] \<and>
   length (saves (poll_once [''acme''] (acme_state [''acme/x-1''])
       (acme_hf [''acme/x-2'', ''acme/x-1'']))) = 1"
  by code_simp

lemma ordering_example:
  "notified (poll_once [''acme'']
      (state (poll_once [''acme''] (acme_state [] \<lparr>orgs := Map.empty\<rparr>) (acme_hf [''acme/A'', ''acme/B''])))
      (acme_hf [''acme/D'', ''acme/C'', ''acme/A'', ''acme/B'']))
     = [(''acme'', ''acme/C''), (''acme'', ''acme/D'')] \<and>
   notified (poll_once [''acme''] (acme_state [] \<lparr>orgs := Map.empty\<rparr>) (acme_hf [''acme/A'', ''acme/B'']))
     = []"
  by code_simp

lemma variant_example:
  "notified (poll_once [''acme''] (acme_state [''acme/x-1''])
       (acme_hf [''acme/x-1-GGUF'', ''acme/x-1''])) = [] \<and>
   orgs (state (poll_once [''acme''] (acme_state [''acme/x-1''])
       (acme_hf [''acme/x-1-GGUF'', ''acme/x-1'']))) ''acme''
     = Some [(''models'', [''acme/x-1-GGUF'', ''acme/x-1''])]"
  by code_simp

section \<open>Properties of the pagination loop\<close>

lemma loop_bound:
  "length (fst (paginate_loop k up req all_items fetched)) \<le> length fetched + k"
proof (induction k arbitrary: req all_items fetched)
  case 0
  then show ?case by simp
next
  case (Suc k)
  show ?case
  proof (cases "up (length fetched) req")
    case (Inl e)
    then show ?thesis by simp
  next
    case (Inr resp)
    show ?thesis
    proof (cases "LINK_NEXT_RE_search (get_link resp)")
      case None
      then show ?thesis using Inr by simp
    next
      case (Some u)
      have "length (fst (paginate_loop k up \<lparr>url = u, params = None\<rparr>
              (all_items @ batch resp) (fetched @ [req]))) \<le> length (fetched @ [req]) + k"
        by (rule Suc.IH)
      then show ?thesis using Inr Some by simp
    qed
  qed
qed

lemma loop_full:
  assumes "\<forall>n r. \<exists>resp. up n r = Inr resp \<and> full_page resp"
  shows "length (fst (paginate_loop k up req all_items fetched)) = length fetched + k \<and>
         (\<exists>items. snd (paginate_loop k up req all_items fetched) = Inr items \<and>
            length items = length all_items + k * PAGE_SIZE)"
proof (induction k arbitrary: req all_items fetched)
  case 0
  then show ?case by simp
next
  case (Suc k)
  obtain resp where r: "up (length fetched) req = Inr resp" "full_page resp"
    using assms by blast
  then obtain u where u: "LINK_NEXT_RE_search (get_link resp) = Some u"
    by (auto simp: full_page_def)
  have len: "length (batch resp) = PAGE_SIZE" using r(2) by (simp add: full_page_def)
  then have ne: "batch resp \<noteq> []" by (auto simp: PAGE_SIZE_def)
  have step: "paginate_loop (Suc k) up req all_items fetched =
      paginate_loop k up \<lparr>url = u, params = None\<rparr> (all_items @ batch resp) (fetched @ [req])"
    using r(1) u len ne by simp
  show ?case
    unfolding step using Suc.IH[of "\<lparr>url = u, params = None\<rparr>" "all_items @ batch resp" "fetched @ [req]"] len
    by auto
qed

lemma loop_stop:
  assumes "up (length fetched) req = Inr resp" and "last_page resp"
  shows "fst (paginate_loop (Suc k) up req all_items fetched) = fetched @ [req]"
  using assms by (auto simp: last_page_def split: option.splits)

text \<open>
  Claim C6. Whatever the upstream does, \<open>_paginate\<close> makes at most \<open>max_pages\<close>
  requests (at most 50 with the default); when every response is exactly one page size
  long and carries a next cursor it makes exactly \<open>max_pages\<close> requests and returns;
  and at any round, a page that is empty, shorter than the page size or without a next
  cursor makes that request the last one.
\<close>

theorem pagination_bounded:
  "length (fst (paginate up ps max_pages)) \<le> nat max_pages \<and>
   length (fst (paginate_default up ps)) \<le> 50 \<and>
   ((\<forall>n r. \<exists>resp. up n r = Inr resp \<and> full_page resp) \<longrightarrow>
      length (fst (paginate up ps max_pages)) = nat max_pages \<and>
      (\<exists>items. snd (paginate up ps max_pages) = Inr items)) \<and>
   (up' (length fetched) req = Inr resp \<and> last_page resp \<longrightarrow>
      fst (paginate_loop (Suc k) up' req all_items fetched) = fetched @ [req])"
proof -
  have a: "length (fst (paginate up ps max_pages)) \<le> nat max_pages" for max_pages
    using loop_bound[of "nat max_pages" up _ "[]" "[]"] by (simp add: paginate_def)
  have b: "length (fst (paginate_default up ps)) \<le> 50"
    using a[of 50] by (simp add: paginate_default_def)
  have c: "(\<forall>n r. \<exists>resp. up n r = Inr resp \<and> full_page resp) \<longrightarrow>
      length (fst (paginate up ps max_pages)) = nat max_pages \<and>
      (\<exists>items. snd (paginate up ps max_pages) = Inr items)"
  proof
    assume h: "\<forall>n r. \<exists>resp. up n r = Inr resp \<and> full_page resp"
    show "length (fst (paginate up ps max_pages)) = nat max_pages \<and>
      (\<exists>items. snd (paginate up ps max_pages) = Inr items)"
      using loop_full[OF h, of "nat max_pages" _ "[]" "[]"] by (auto simp: paginate_def)
  qed
  have d: "up' (length fetched) req = Inr resp \<and> last_page resp \<longrightarrow>
      fst (paginate_loop (Suc k) up' req all_items fetched) = fetched @ [req]"
    using loop_stop[of up' fetched req resp k all_items] by blast
  show ?thesis using a b c d by blast
qed

lemma search_next_link: "LINK_NEXT_RE_search next_link = Some ''https://huggingface.co/api/models?cursor=abc''"
  by (simp add: next_link_def link_next_at_def dquote_def is_space_def)

theorem pagination_bounded_witness:
  "(\<forall>n r. \<exists>resp. full_upstream n r = Inr resp \<and> full_page resp) \<and>
   length (fst (paginate full_upstream () 50)) = 50 \<and>
   (short_upstream (length ([] :: unit request list)) \<lparr>url = HF_API, params = Some ()\<rparr>
      = Inr \<lparr>batch = [1, 2, 3], link_header = Some next_link\<rparr> \<and>
    last_page \<lparr>batch = [1, 2, 3 :: nat], link_header = Some next_link\<rparr>) \<and>
   fst (paginate_loop (Suc 49) short_upstream \<lparr>url = HF_API, params = Some ()\<rparr> [] [])
     = [\<lparr>url = HF_API, params = Some ()\<rparr>]"
proof -
  have h1: "\<forall>n r. \<exists>resp. full_upstream n r = Inr resp \<and> full_page resp"
    by (simp add: full_upstream_def full_page_def PAGE_SIZE_def get_link_def search_next_link)
  have h2: "short_upstream (length ([] :: unit request list)) \<lparr>url = HF_API, params = Some ()\<rparr>
      = Inr \<lparr>batch = [1, 2, 3], link_header = Some next_link\<rparr> \<and>
    last_page \<lparr>batch = [1, 2, 3 :: nat], link_header = Some next_link\<rparr>"
    by (simp add: short_upstream_def last_page_def PAGE_SIZE_def)
  show ?thesis
    using pagination_bounded[of full_upstream "()" 50 short_upstream "[]"
        "\<lparr>url = HF_API, params = Some ()\<rparr>" "\<lparr>batch = [1, 2, 3], link_header = Some next_link\<rparr>"
        49 "[]"] h1 h2
    by simp
qed

section \<open>Properties of loading the state\<close>

text \<open>
  Claim C9 fails on a state file that is not valid UTF-8: for the file whose content is
  the single byte \<open>0xFF\<close>, \<open>load_state\<close> raises \<open>UnicodeDecodeError\<close>, which is none of
  the exception classes it catches, whatever the JSON parser does.
\<close>

theorem load_state_raises_on_invalid_utf8:
  "load_state loads (Content [CHR 0xFF]) = Inl UnicodeDecodeError"
  by (simp add: load_state_def open_and_load_def is_OSError_def)

text \<open>
  On a file that is missing, cannot be read, or is valid UTF-8 on which the parser
  returns or raises \<open>JSONDecodeError\<close>, \<open>load_state\<close> returns a document that has the
  three top-level keys. Any other exception of the parser leaves \<open>load_state\<close> as it
  is.
\<close>

lemma load_state_returns_otherwise:
  assumes "\<forall>bytes. f = Content bytes \<longrightarrow>
             utf8_valid (map of_char bytes) \<and>
             (\<forall>e. loads bytes = Inl e \<longrightarrow> e = JSONDecodeError)"
  shows "\<exists>doc. load_state loads f = Inr doc \<and>
           {''orgs'', ''chat_users'', ''question_bank''} \<subseteq> fst ` set doc"
proof (cases f)
  case (Content bytes)
  then have v: "utf8_valid (map of_char bytes)"
    and p: "\<forall>e. loads bytes = Inl e \<longrightarrow> e = JSONDecodeError"
    using assms by auto
  show ?thesis
  proof (cases "loads bytes")
    case (Inl e)
    then have "e = JSONDecodeError" using p by simp
    then show ?thesis using Content v Inl
      by (simp add: load_state_def open_and_load_def empty_state_def)
  next
    case (Inr data)
    then show ?thesis using Content v
      by (cases data)
         (auto simp: load_state_def open_and_load_def empty_state_def setdefault_def)
  qed
qed (simp_all add: load_state_def open_and_load_def is_OSError_def empty_state_def)

lemma load_state_lets_parser_error_out:
  assumes "utf8_valid (map of_char bytes)" and "loads bytes = Inl e"
    and "e = RecursionError \<or> e = ValueError"
  shows "load_state loads (Content bytes) = Inl e"
  using assms by (auto simp: load_state_def open_and_load_def is_OSError_def)

section \<open>Properties of the context aggregator\<close>

lemma classify_failed: "failed t \<Longrightarrow> classify acc t = acc"
  by (cases t) (auto simp: failed_def split: sum.splits)

lemma foldl_classify_filter:
  "foldl classify acc ts = foldl classify acc (filter (\<lambda>t. \<not> failed t) ts)"
  by (induction ts arbitrary: acc) (simp_all add: classify_failed)

lemma assemble_filter: "assemble svc ts = assemble svc (filter (\<lambda>t. \<not> failed t) ts)"
  unfolding assemble_def by (subst foldl_classify_filter) (rule refl)

lemma gather_context_eq: "gather_context svc user_text idata = Inr (assemble svc (build_tasks svc user_text idata))"
  by (simp add: gather_context_def asyncio_gather_def Let_def)

lemma all_images_classify: "all_images (classify acc t) = all_images acc @ task_images t"
  by (cases t) (auto simp: classify_text_def classify_url_def Let_def split: sum.splits option.splits prod.splits)

lemma all_images_foldl:
  "all_images (foldl classify acc ts) = all_images acc @ concat (map task_images ts)"
  by (induction ts arbitrary: acc) (simp_all add: all_images_classify)

lemma models_data_classify: "models_data (classify acc t) = models_data acc @ task_texts t"
  by (cases t) (auto simp: classify_text_def classify_url_def Let_def split: sum.splits option.splits prod.splits)

lemma url_contents_classify: "url_contents (classify acc t) = url_contents acc @ task_pages t"
  by (cases t) (auto simp: classify_text_def classify_url_def Let_def split: sum.splits option.splits prod.splits)

lemma search_results_classify:
  "search_results (classify acc t) = (case task_hits t of None \<Rightarrow> search_results acc | Some hits \<Rightarrow> hits)"
  by (cases t) (auto simp: classify_text_def classify_url_def Let_def split: sum.splits option.splits prod.splits)

lemma models_data_foldl:
  "models_data (foldl classify acc ts) = models_data acc @ concat (map task_texts ts)"
  by (induction ts arbitrary: acc) (simp_all add: models_data_classify)

lemma url_contents_foldl:
  "url_contents (foldl classify acc ts) = url_contents acc @ concat (map task_pages ts)"
  by (induction ts arbitrary: acc) (simp_all add: url_contents_classify)

lemma search_results_foldl:
  "search_results (foldl classify acc ts) =
     (case List.map_filter task_hits ts of [] \<Rightarrow> search_results acc | h # hs \<Rightarrow> last (h # hs))"
proof (induction ts arbitrary: acc)
  case Nil
  then show ?case by (simp add: List.map_filter_simps)
next
  case (Cons t ts)
  show ?case
  proof (cases "task_hits t")
    case None
    then have "search_results (classify acc t) = search_results acc"
      by (simp add: search_results_classify)
    then show ?thesis using None Cons.IH[of "classify acc t"]
      by (simp add: List.map_filter_simps split: list.splits)
  next
    case (Some hits)
    then have "search_results (classify acc t) = hits"
      by (simp add: search_results_classify)
    then show ?thesis using Some Cons.IH[of "classify acc t"]
      by (simp add: List.map_filter_simps split: list.splits)
  qed
qed

lemma search_results_init:
  "search_results (foldl classify
      \<lparr>models_data = [], search_results = [], url_contents = [], all_images = []\<rparr> ts)
     = last_hits ts"
  by (simp add: search_results_foldl last_hits_def split: list.splits)

lemma assemble_closed_form:
  "assemble svc ts =
     \<lparr>hf_context =
        (if concat (map task_texts ts) = [] then None
         else Some (join [newline, newline]
                (take 4 (unique_by_key (concat (map task_texts ts)) {} [])))),
      url_context =
        (if concat (map task_pages ts) = [] then None
         else Some (join [newline, newline] (concat (map task_pages ts)))),
      web_context =
        (if last_hits ts = [] then None else Some (format_results svc (last_hits ts))),
      image_urls = take 3 (concat (map task_images ts))\<rparr>"
proof -
  let ?acc = "foldl classify
      \<lparr>models_data = [], search_results = [], url_contents = [], all_images = []\<rparr> ts"
  have md: "models_data ?acc = concat (map task_texts ts)" by (simp add: models_data_foldl)
  have uc: "url_contents ?acc = concat (map task_pages ts)" by (simp add: url_contents_foldl)
  have sr: "search_results ?acc = last_hits ts" by (rule search_results_init)
  have ai: "all_images ?acc = concat (map task_images ts)" by (simp add: all_images_foldl)
  show ?thesis unfolding assemble_def Let_def md uc sr ai by simp
qed

lemma failed_contributes_nothing:
  "failed t \<Longrightarrow> task_texts t = [] \<and> task_pages t = [] \<and> task_hits t = None \<and> task_images t = []"
  by (cases t) (auto simp: failed_def split: sum.splits)

lemma join_Cons: "join sep (y # ys) = y @ concat (map (\<lambda>x. sep @ x) ys)"
proof -
  have "foldl (\<lambda>acc x. acc @ sep @ x) a ys = a @ concat (map (\<lambda>x. sep @ x) ys)" for a
    by (induction ys arbitrary: a) simp_all
  then show ?thesis by (simp add: join_def)
qed

lemma str_contains_mid: "str_contains (p @ sub @ q) sub"
proof (induction p)
  case Nil
  show ?case
  proof (cases "sub @ q")
    case Nil
    then show ?thesis by simp
  next
    case (Cons a list)
    have "prefix sub (sub @ q)" by simp
    then have "prefix sub (a # list)" using Cons by simp
    then show ?thesis using Cons by simp
  qed
next
  case (Cons a p)
  then show ?case by simp
qed

lemma str_contains_join: "x \<in> set xs \<Longrightarrow> str_contains (join sep xs) x"
proof -
  assume "x \<in> set xs"
  then obtain ys zs where xs: "xs = ys @ x # zs" by (meson split_list)
  show ?thesis
  proof (cases ys)
    case Nil
    then have "join sep xs = [] @ x @ concat (map (\<lambda>x. sep @ x) zs)" using xs by (simp add: join_Cons)
    then show ?thesis using str_contains_mid[of "[]" x] by metis
  next
    case (Cons y ys')
    then have "join sep xs = (y @ concat (map (\<lambda>x. sep @ x) ys') @ sep) @ x @ concat (map (\<lambda>x. sep @ x) zs)"
      using xs by (simp add: join_Cons)
    then show ?thesis using str_contains_mid by metis
  qed
qed

lemma unique_by_key_acc: "unique_by_key ds seen acc = acc @ unique_by_key ds seen []"
proof (induction ds arbitrary: seen acc)
  case Nil
  then show ?case by simp
next
  case (Cons d ds)
  let ?k = "takeWhile (\<lambda>c. c \<noteq> newline) d"
  show ?case
  proof (cases "?k \<in> seen")
    case True
    then show ?thesis using Cons.IH[of seen acc] by (simp add: Let_def)
  next
    case False
    have "unique_by_key ds (insert ?k seen) (acc @ [d]) = (acc @ [d]) @ unique_by_key ds (insert ?k seen) []"
      by (rule Cons.IH)
    moreover have "unique_by_key ds (insert ?k seen) [d] = [d] @ unique_by_key ds (insert ?k seen) []"
      by (rule Cons.IH)
    ultimately show ?thesis using False by (simp add: Let_def)
  qed
qed

lemma unique_by_key_head:
  "unique_by_key (d # ds) {} [] = d # unique_by_key ds {takeWhile (\<lambda>c. c \<noteq> newline) d} []"
  using unique_by_key_acc[of ds "{takeWhile (\<lambda>c. c \<noteq> newline) d}" "[d]"] by (simp add: Let_def)

lemma hf_context_head:
  assumes "concat (map task_texts ts) = descr # others"
  shows "\<exists>c. hf_context (assemble svc ts) = Some c \<and> prefix descr c"
proof -
  let ?U = "unique_by_key others {takeWhile (\<lambda>c. c \<noteq> newline) descr} []"
  have "take 4 (unique_by_key (descr # others) {} []) = descr # take 3 ?U"
    by (simp add: unique_by_key_head del: unique_by_key.simps)
  then have "join [newline, newline] (take 4 (unique_by_key (descr # others) {} []))
      = descr @ concat (map (\<lambda>x. [newline, newline] @ x) (take 3 ?U))"
    by (simp only: join_Cons)
  then show ?thesis using assms by (simp add: assemble_closed_form del: unique_by_key.simps)
qed

lemma url_context_contains:
  assumes "t \<in> set ts" and "page \<in> set (task_pages t)"
  shows "\<exists>c. url_context (assemble svc ts) = Some c \<and> str_contains c page"
proof -
  have m: "page \<in> set (concat (map task_pages ts))" using assms by auto
  then have "concat (map task_pages ts) \<noteq> []" by (metis empty_iff empty_set)
  then show ?thesis using str_contains_join[OF m] by (simp add: assemble_closed_form)
qed

lemma url_task_mem:
  "u \<in> set (take 3 (extract_urls svc user_text)) \<Longrightarrow>
   (if is_arxiv_url u then ArxivTask (fetch_arxiv_paper svc u) else UrlTask (fetch_url_text svc u))
     \<in> set (build_tasks svc user_text idata)"
  by (simp add: build_tasks_def Let_def)

lemma model_text_head:
  assumes "intent idata = ''compare'' \<or> intent idata = ''info''"
    and "models idata = mid # rest"
    and "fst (fetch_model svc (intent idata = ''compare'') mid) = Some descr" and "descr \<noteq> []"
  shows "\<exists>others. concat (map task_texts (build_tasks svc user_text idata)) = descr # others"
  using assms by (auto simp: build_tasks_def Let_def)

text \<open>
  Claim C7. Whatever the collaborators do, \<open>_gather_context\<close> returns a context and
  raises nothing: \<open>gather\<close> with \<open>return_exceptions=True\<close> hands every outcome over. The
  context is the one assembled from the tasks that succeeded, and it is made of their
  results: the texts of the model and search tasks (deduplicated by first line, at most
  4) joined into \<open>hf_context\<close>, the pages of the URL and paper tasks joined into
  \<open>url_context\<close>, the hits of the web task formatted into \<open>web_context\<close>, their images
  in \<open>image_urls\<close>. A task that failed gives none of these and leaves the context as if
  it were absent, while the tasks before and after it still contribute: a page that a
  URL task returned is in \<open>url_context\<close> and the text of the first model task leads
  \<open>hf_context\<close>, whatever the other tasks did.
\<close>

theorem gather_context_isolates_failures:
  "(\<exists>ctx. gather_context svc user_text idata = Inr ctx \<and>
      ctx = assemble svc (filter (\<lambda>t. \<not> failed t) (build_tasks svc user_text idata))) \<and>
   asyncio_gather True tasks = Inr tasks \<and>
   (failed t \<longrightarrow>
      assemble svc (ts1 @ t # ts2) = assemble svc (ts1 @ ts2) \<and>
      task_texts t = [] \<and> task_pages t = [] \<and> task_hits t = None \<and> task_images t = []) \<and>
   assemble svc ts =
     \<lparr>hf_context =
        (if concat (map task_texts ts) = [] then None
         else Some (join [newline, newline]
                (take 4 (unique_by_key (concat (map task_texts ts)) {} [])))),
      url_context =
        (if concat (map task_pages ts) = [] then None
         else Some (join [newline, newline] (concat (map task_pages ts)))),
      web_context =
        (if last_hits ts = [] then None else Some (format_results svc (last_hits ts))),
      image_urls = take 3 (concat (map task_images ts))\<rparr> \<and>
   (u \<in> set (take 3 (extract_urls svc user_text)) \<and>
    (if is_arxiv_url u then fetch_arxiv_paper svc u else fetch_url_text svc u) = Inr (Some page) \<and>
    page \<noteq> [] \<longrightarrow>
      (\<exists>ctx c. gather_context svc user_text idata = Inr ctx \<and>
         url_context ctx = Some c \<and> str_contains c page)) \<and>
   ((intent idata = ''compare'' \<or> intent idata = ''info'') \<and> models idata = mid # rest \<and>
    fst (fetch_model svc (intent idata = ''compare'') mid) = Some descr \<and> descr \<noteq> [] \<longrightarrow>
      (\<exists>ctx c. gather_context svc user_text idata = Inr ctx \<and>
         hf_context ctx = Some c \<and> prefix descr c))"
proof -
  have a: "\<exists>ctx. gather_context svc user_text idata = Inr ctx \<and>
      ctx = assemble svc (filter (\<lambda>t. \<not> failed t) (build_tasks svc user_text idata))"
    using assemble_filter[of svc "build_tasks svc user_text idata"]
    by (simp add: gather_context_eq)
  have b: "asyncio_gather True tasks = Inr tasks" by (simp add: asyncio_gather_def)
  have c: "failed t \<longrightarrow>
      assemble svc (ts1 @ t # ts2) = assemble svc (ts1 @ ts2) \<and>
      task_texts t = [] \<and> task_pages t = [] \<and> task_hits t = None \<and> task_images t = []"
  proof
    assume f: "failed t"
    have "assemble svc (ts1 @ t # ts2) = assemble svc (filter (\<lambda>t. \<not> failed t) (ts1 @ t # ts2))"
      by (rule assemble_filter)
    also have "\<dots> = assemble svc (filter (\<lambda>t. \<not> failed t) (ts1 @ ts2))" using f by simp
    also have "\<dots> = assemble svc (ts1 @ ts2)" by (rule assemble_filter[symmetric])
    finally have "assemble svc (ts1 @ t # ts2) = assemble svc (ts1 @ ts2)" .
    then show "assemble svc (ts1 @ t # ts2) = assemble svc (ts1 @ ts2) \<and>
      task_texts t = [] \<and> task_pages t = [] \<and> task_hits t = None \<and> task_images t = []"
      using failed_contributes_nothing[OF f] by simp
  qed
  note d = assemble_closed_form[of svc ts]
  have e: "u \<in> set (take 3 (extract_urls svc user_text)) \<and>
    (if is_arxiv_url u then fetch_arxiv_paper svc u else fetch_url_text svc u) = Inr (Some page) \<and>
    page \<noteq> [] \<longrightarrow>
      (\<exists>ctx c. gather_context svc user_text idata = Inr ctx \<and>
         url_context ctx = Some c \<and> str_contains c page)"
  proof
    assume h: "u \<in> set (take 3 (extract_urls svc user_text)) \<and>
      (if is_arxiv_url u then fetch_arxiv_paper svc u else fetch_url_text svc u) = Inr (Some page) \<and>
      page \<noteq> []"
    let ?t = "if is_arxiv_url u then ArxivTask (fetch_arxiv_paper svc u)
              else UrlTask (fetch_url_text svc u)"
    have m: "?t \<in> set (build_tasks svc user_text idata)" using h by (simp add: url_task_mem)
    have p: "page \<in> set (task_pages ?t)" using h by (auto split: if_splits)
    show "\<exists>ctx c. gather_context svc user_text idata = Inr ctx \<and>
         url_context ctx = Some c \<and> str_contains c page"
      using url_context_contains[OF m p, of svc] by (simp add: gather_context_eq)
  qed
  have g: "(intent idata = ''compare'' \<or> intent idata = ''info'') \<and> models idata = mid # rest \<and>
    fst (fetch_model svc (intent idata = ''compare'') mid) = Some descr \<and> descr \<noteq> [] \<longrightarrow>
      (\<exists>ctx c. gather_context svc user_text idata = Inr ctx \<and>
         hf_context ctx = Some c \<and> prefix descr c)"
  proof
    assume h: "(intent idata = ''compare'' \<or> intent idata = ''info'') \<and> models idata = mid # rest \<and>
      fst (fetch_model svc (intent idata = ''compare'') mid) = Some descr \<and> descr \<noteq> []"
    then obtain others where
      "concat (map task_texts (build_tasks svc user_text idata)) = descr # others"
      using model_text_head[of idata mid rest svc descr user_text] by blast
    then show "\<exists>ctx c. gather_context svc user_text idata = Inr ctx \<and>
         hf_context ctx = Some c \<and> prefix descr c"
      using hf_context_head[of "build_tasks svc user_text idata" descr others svc]
      by (simp add: gather_context_eq)
  qed
  show ?thesis using a b c d e g by blast
qed

theorem gather_context_isolates_failures_witness:
  "failed (ArxivTask (Inl TimeoutError)) \<and>
   (''https://example.org/post'' \<in> set (take 3 (extract_urls demo_services ''compare acme/m and m'')) \<and>
    (if is_arxiv_url ''https://example.org/post''
     then fetch_arxiv_paper demo_services ''https://example.org/post''
     else fetch_url_text demo_services ''https://example.org/post'') = Inr (Some ''page text'') \<and>
    ''page text'' \<noteq> []) \<and>
   ((intent demo_intent = ''compare'' \<or> intent demo_intent = ''info'') \<and>
    models demo_intent = ''acme/m'' # [] \<and>
    fst (fetch_model demo_services (intent demo_intent = ''compare'') ''acme/m'')
      = Some ''=== acme/m ==='' \<and>
    ''=== acme/m ==='' \<noteq> []) \<and>
   assemble demo_services five_tasks
     = assemble demo_services
         ([ModelTask (Inr (Some ''=== acme/m ==='',
             [''https://huggingface.co/acme/m/resolve/main/chart.png''])),
           UrlTask (Inl ClientError)] @
          [UrlTask (Inr (Some ''page text'')),
           WebTask (Inr [\<lparr>title = ''news'', body = ''summary'', href = ''https://example.org''\<rparr>])]) \<and>
   assemble demo_services five_tasks =
     \<lparr>hf_context = Some ''=== acme/m ==='', url_context = Some ''page text'',
      web_context = Some (format_results demo_services
         [\<lparr>title = ''news'', body = ''summary'', href = ''https://example.org''\<rparr>]),
      image_urls = [''https://huggingface.co/acme/m/resolve/main/chart.png'']\<rparr> \<and>
   (\<exists>ctx c. gather_context demo_services ''compare acme/m and m'' demo_intent = Inr ctx \<and>
      url_context ctx = Some c \<and> str_contains c ''page text'') \<and>
   (\<exists>ctx c. gather_context demo_services ''compare acme/m and m'' demo_intent = Inr ctx \<and>
      hf_context ctx = Some c \<and> prefix ''=== acme/m ==='' c)"
proof -
  have h1: "failed (ArxivTask (Inl TimeoutError))" by (simp add: failed_def)
  have na: "\<not> is_arxiv_url ''https://example.org/post''" by code_simp
  have h2: "''https://example.org/post'' \<in> set (take 3 (extract_urls demo_services ''compare acme/m and m'')) \<and>
    (if is_arxiv_url ''https://example.org/post''
     then fetch_arxiv_paper demo_services ''https://example.org/post''
     else fetch_url_text demo_services ''https://example.org/post'') = Inr (Some ''page text'') \<and>
    ''page text'' \<noteq> []"
    using na by (simp add: demo_services_def)
  have fm: "fst (fetch_model demo_services (intent demo_intent = ''compare'') ''acme/m'')
      = Some ''=== acme/m ===''"
    by code_simp
  have h3: "(intent demo_intent = ''compare'' \<or> intent demo_intent = ''info'') \<and>
    models demo_intent = ''acme/m'' # [] \<and>
    fst (fetch_model demo_services (intent demo_intent = ''compare'') ''acme/m'')
      = Some ''=== acme/m ==='' \<and>
    ''=== acme/m ==='' \<noteq> []"
    using fm by (simp add: demo_intent_def)
  have split: "five_tasks =
      [ModelTask (Inr (Some ''=== acme/m ==='',
             [''https://huggingface.co/acme/m/resolve/main/chart.png''])),
       UrlTask (Inl ClientError)] @
      ArxivTask (Inl TimeoutError) #
      [UrlTask (Inr (Some ''page text'')),
       WebTask (Inr [\<lparr>title = ''news'', body = ''summary'', href = ''https://example.org''\<rparr>])]"
    by (simp add: five_tasks_def)
  note T = gather_context_isolates_failures[of demo_services "''compare acme/m and m''" demo_intent
      five_tasks "ArxivTask (Inl TimeoutError)"
      "[ModelTask (Inr (Some ''=== acme/m ==='',
             [''https://huggingface.co/acme/m/resolve/main/chart.png''])),
        UrlTask (Inl ClientError)]"
      "[UrlTask (Inr (Some ''page text'')),
        WebTask (Inr [\<lparr>title = ''news'', body = ''summary'', href = ''https://example.org''\<rparr>])]"
      five_tasks "''https://example.org/post''" "''page text''" "''acme/m''" "[]"
      "''=== acme/m ===''"]
  have drop: "assemble demo_services five_tasks
     = assemble demo_services
         ([ModelTask (Inr (Some ''=== acme/m ==='',
             [''https://huggingface.co/acme/m/resolve/main/chart.png''])),
           UrlTask (Inl ClientError)] @
          [UrlTask (Inr (Some ''page text'')),
           WebTask (Inr [\<lparr>title = ''news'', body = ''summary'', href = ''https://example.org''\<rparr>])])"
    using T h1 unfolding split by blast
  have closed: "assemble demo_services five_tasks =
     \<lparr>hf_context =
        (if concat (map task_texts five_tasks) = [] then None
         else Some (join [newline, newline]
                (take 4 (unique_by_key (concat (map task_texts five_tasks)) {} [])))),
      url_context =
        (if concat (map task_pages five_tasks) = [] then None
         else Some (join [newline, newline] (concat (map task_pages five_tasks)))),
      web_context =
        (if last_hits five_tasks = [] then None
         else Some (format_results demo_services (last_hits five_tasks))),
      image_urls = take 3 (concat (map task_images five_tasks))\<rparr>"
    using T by blast
  have eval: "assemble demo_services five_tasks =
     \<lparr>hf_context = Some ''=== acme/m ==='', url_context = Some ''page text'',
      web_context = Some (format_results demo_services
         [\<lparr>title = ''news'', body = ''summary'', href = ''https://example.org''\<rparr>]),
      image_urls = [''https://huggingface.co/acme/m/resolve/main/chart.png'']\<rparr>"
    unfolding closed by (simp add: five_tasks_def last_hits_def List.map_filter_simps join_def)
  have e1: "\<exists>ctx c. gather_context demo_services ''compare acme/m and m'' demo_intent = Inr ctx \<and>
      url_context ctx = Some c \<and> str_contains c ''page text''"
    using T h2 by blast
  have e2: "\<exists>ctx c. gather_context demo_services ''compare acme/m and m'' demo_intent = Inr ctx \<and>
      hf_context ctx = Some c \<and> prefix ''=== acme/m ==='' c"
    using T h3 by blast
  show ?thesis using h1 h2 h3 drop eval e1 e2 by blast
qed

lemma unique_loop_acc: "unique_loop xs seen acc = acc @ unique_loop xs seen []"
proof (induction xs arbitrary: seen acc)
  case Nil
  then show ?case by simp
next
  case (Cons x xs)
  show ?case
  proof (cases "x \<in> seen")
    case True
    then show ?thesis using Cons.IH[of seen acc] by simp
  next
    case False
    have "unique_loop xs (insert x seen) (acc @ [x]) = (acc @ [x]) @ unique_loop xs (insert x seen) []"
      by (rule Cons.IH)
    moreover have "unique_loop xs (insert x seen) [x] = [x] @ unique_loop xs (insert x seen) []"
      by (rule Cons.IH)
    ultimately show ?thesis using False by simp
  qed
qed

lemma unique_loop_Cons:
  "unique_loop (x # xs) seen [] =
     (if x \<in> seen then unique_loop xs seen [] else x # unique_loop xs (insert x seen) [])"
  using unique_loop_acc[of xs "insert x seen" "[x]"] by simp

lemma set_unique_loop: "set (unique_loop xs seen []) = set xs - seen"
  by (induction xs arbitrary: seen) (auto simp: unique_loop_Cons simp del: unique_loop.simps(2))

lemma distinct_unique_loop: "distinct (unique_loop xs seen [])"
  by (induction xs arbitrary: seen) (auto simp: unique_loop_Cons set_unique_loop simp del: unique_loop.simps(2))

lemma sorted_wrt_unique_loop: "sorted_wrt R xs \<Longrightarrow> sorted_wrt R (unique_loop xs seen [])"
  by (induction xs arbitrary: seen) (auto simp: unique_loop_Cons set_unique_loop simp del: unique_loop.simps(2))

lemma bucket_loop_eq:
  "bucket_loop xs rel oth = (rel @ filter is_relevant xs, oth @ filter (\<lambda>u. \<not> is_relevant u) xs)"
  by (induction xs arbitrary: rel oth) simp_all

lemma set_normalize_loop:
  "set (normalize_loop mid raw acc) =
     set acc \<union> {resolve mid (strip r) | r. r \<in> set raw \<and> \<not> is_decorative (strip r)}"
  by (induction raw arbitrary: acc) (auto simp: Let_def)

lemma py_slice_to_take: "\<exists>k. py_slice_to n xs = take k xs \<and> (0 \<le> n \<longrightarrow> k = nat n)"
  by (auto simp: py_slice_to_def)

lemma extract_images_take:
  "\<exists>k. extract_images pats readme mid n =
     take k (unique_loop (filter is_relevant (normalize_loop mid (concat (map (\<lambda>findall. findall readme) pats)) [])
        @ filter (\<lambda>u. \<not> is_relevant u) (normalize_loop mid (concat (map (\<lambda>findall. findall readme) pats)) [])) {} [])
     \<and> (0 \<le> n \<longrightarrow> k = nat n)"
  using py_slice_to_take by (simp add: extract_images_def bucket_loop_eq Let_def)

lemma ranked_all: "\<forall>x\<in>set xs. P x \<Longrightarrow> sorted_wrt (\<lambda>a b. P b \<longrightarrow> P a) xs"
  by (induction xs) auto

lemma ranked_none: "\<forall>x\<in>set xs. \<not> P x \<Longrightarrow> sorted_wrt (\<lambda>a b. P b \<longrightarrow> P a) xs"
  by (induction xs) auto

lemma ranked_append: "sorted_wrt (\<lambda>a b. P b \<longrightarrow> P a) (filter P xs @ filter (\<lambda>u. \<not> P u) xs)"
  by (simp add: sorted_wrt_append ranked_all ranked_none)

lemma image_urls_assemble: "image_urls (assemble svc ts) = take 3 (concat (map task_images ts))"
  by (simp add: assemble_def Let_def all_images_foldl)

text \<open>
  Claim C8, as amended. The image URLs extracted from one README are distinct, each
  comes from an image reference that does not contain badge, shield, icon, .svg or logo
  (tested on the reference as written, before a relative path is resolved against the
  repository of the model), no URL without a result/benchmark/chart-like keyword comes
  before one with such a keyword, and they are at most \<open>max_images\<close>, 3 in
  \<open>get_readme_with_images\<close>. The aggregated context holds the first 3 URLs of the lists
  of the model and search tasks, concatenated in task order: at most 3 in total.
\<close>

theorem image_urls_ranked_per_document_capped_in_total:
  "distinct (extract_images pats readme mid n) \<and>
   (\<forall>u\<in>set (extract_images pats readme mid n).
      \<exists>r\<in>set (concat (map (\<lambda>findall. findall readme) pats)).
        \<not> is_decorative (strip r) \<and> u = resolve mid (strip r)) \<and>
   sorted_wrt (\<lambda>a b. is_relevant b \<longrightarrow> is_relevant a) (extract_images pats readme mid n) \<and>
   (0 \<le> n \<longrightarrow> length (extract_images pats readme mid n) \<le> nat n) \<and>
   length (snd (get_readme_with_images svc mid)) \<le> 3 \<and>
   image_urls (assemble svc tasks) = take 3 (concat (map task_images tasks)) \<and>
   (\<exists>ctx. gather_context svc user_text idata = Inr ctx \<and> length (image_urls ctx) \<le> 3)"
proof -
  let ?raw = "concat (map (\<lambda>findall. findall readme) pats)"
  let ?norm = "normalize_loop mid ?raw []"
  let ?U = "unique_loop (filter is_relevant ?norm @ filter (\<lambda>u. \<not> is_relevant u) ?norm) {} []"
  have len: "0 \<le> n' \<longrightarrow> length (extract_images pats' readme' mid' n') \<le> nat n'"
    for pats' readme' mid' n'
    using extract_images_take[of pats' readme' mid' n'] by auto
  obtain k where k: "extract_images pats readme mid n = take k ?U"
    using extract_images_take[of pats readme mid n] by blast
  have a: "distinct (extract_images pats readme mid n)"
    unfolding k by (simp add: distinct_unique_loop)
  have "set (take k ?U) \<subseteq> set ?U" by (rule set_take_subset)
  also have "\<dots> \<subseteq> set ?norm" by (auto simp: set_unique_loop)
  finally have sub: "set (extract_images pats readme mid n) \<subseteq> set ?norm" unfolding k .
  have b: "\<forall>u\<in>set (extract_images pats readme mid n).
      \<exists>r\<in>set ?raw. \<not> is_decorative (strip r) \<and> u = resolve mid (strip r)"
  proof
    fix u assume "u \<in> set (extract_images pats readme mid n)"
    then have "u \<in> set ?norm" using sub by blast
    then show "\<exists>r\<in>set ?raw. \<not> is_decorative (strip r) \<and> u = resolve mid (strip r)"
      unfolding set_normalize_loop by auto
  qed
  have "sorted_wrt (\<lambda>a b. is_relevant b \<longrightarrow> is_relevant a) ?U"
    by (rule sorted_wrt_unique_loop) (rule ranked_append)
  then have c: "sorted_wrt (\<lambda>a b. is_relevant b \<longrightarrow> is_relevant a) (extract_images pats readme mid n)"
    unfolding k by (rule sorted_wrt_take)
  have e: "length (snd (get_readme_with_images svc mid)) \<le> 3"
    using len[of 3 "IMG_PATTERNS svc" _ mid]
    by (simp add: get_readme_with_images_def Let_def split: readme_response.splits)
  have g: "image_urls (assemble svc tasks) = take 3 (concat (map task_images tasks))"
    by (rule image_urls_assemble)
  have f: "\<exists>ctx. gather_context svc user_text idata = Inr ctx \<and> length (image_urls ctx) \<le> 3"
    by (simp add: gather_context_eq image_urls_assemble)
  show ?thesis using a b c len[of n pats readme mid] e g f by blast
qed

lemma demo_extract:
  "extract_images demo_patterns ''readme'' ''acme/m'' 3 =
     [''https://huggingface.co/acme/m/resolve/main/fig/Chart.png'',
      ''https://huggingface.co/acme/m/resolve/main/b/eval.jpg'',
      ''https://huggingface.co/acme/m/resolve/main/a.png'']"
  by code_simp

theorem image_urls_ranked_per_document_capped_in_total_witness:
  "(0::int) \<le> 3 \<and>
   length (extract_images demo_patterns ''readme'' ''acme/m'' 3) \<le> nat 3 \<and>
   ''https://huggingface.co/acme/m/resolve/main/a.png''
     \<in> set (extract_images demo_patterns ''readme'' ''acme/m'' 3) \<and>
   (\<exists>r\<in>set (concat (map (\<lambda>findall. findall ''readme'') demo_patterns)).
      \<not> is_decorative (strip r) \<and>
      ''https://huggingface.co/acme/m/resolve/main/a.png'' = resolve ''acme/m'' (strip r)) \<and>
   is_relevant ''https://huggingface.co/acme/m/resolve/main/b/eval.jpg'' \<and>
   sorted_wrt (\<lambda>a b. is_relevant b \<longrightarrow> is_relevant a)
     (extract_images demo_patterns ''readme'' ''acme/m'' 3) \<and>
   distinct (extract_images demo_patterns ''readme'' ''acme/m'' 3)"
proof -
  have m: "''https://huggingface.co/acme/m/resolve/main/a.png''
     \<in> set (extract_images demo_patterns ''readme'' ''acme/m'' 3)"
    unfolding demo_extract by simp
  have r: "is_relevant ''https://huggingface.co/acme/m/resolve/main/b/eval.jpg''"
    by code_simp
  show ?thesis
    using image_urls_ranked_per_document_capped_in_total[of demo_patterns "''readme''" "''acme/m''" 3
        demo_services "[]" "''compare acme/m and m''" demo_intent] m r
    by auto
qed

text \<open>
  Claim C8 as written fails across tasks: when the lookup of \<open>acme/m\<close> and the search
  for \<open>m\<close> reach the same model, its image is twice in the aggregated context.
\<close>

theorem duplicate_image_across_tasks_counterexample:
  "gather_context demo_services ''compare acme/m and m'' demo_intent
     = Inr (assemble demo_services (build_tasks demo_services ''compare acme/m and m'' demo_intent)) \<and>
   image_urls (assemble demo_services (build_tasks demo_services ''compare acme/m and m'' demo_intent))
     = [''https://huggingface.co/acme/m/resolve/main/chart.png'',
        ''https://huggingface.co/acme/m/resolve/main/chart.png''] \<and>
   \<not> distinct [''https://huggingface.co/acme/m/resolve/main/chart.png'',
        ''https://huggingface.co/acme/m/resolve/main/chart.png'']"
  by (simp add: gather_context_eq image_urls_assemble) code_simp

section \<open>Properties of the duel session\<close>

text \<open>
  Claim C1 fails when the expiry timer fires while the evaluation awaits the verdict:
  the timer finds the session, deletes it and announces the timeout; the evaluation
  then finds no session to delete and sends the result all the same. Both messages are
  produced.
\<close>

theorem evaluation_overlapping_expiry_sends_both:
  "outbox (run active_duel
     [Mention ''42'' False ''four'', TimeoutFires ''42'', LLMReturns ''42'' (Some ''correct'')])
   = [(''42'', ThinkingMsg), (''42'', TimeoutMsg), (''42'', ResultMsg ''correct'')]"
  by (simp add: run_def active_duel_def handle_message_def handle_battle_evaluate_begin_def
        handle_battle_evaluate_end_def battle_final_timeout_def timeout_name_def reminder_name_def)

text \<open>
  The second part of \<open>_handle_battle_evaluate\<close> sends the result whether or not the
  session is still there; only the deletion is guarded.
\<close>

lemma evaluate_end_without_session:
  "battles s chat_id = None \<Longrightarrow> verdict \<noteq> [] \<Longrightarrow>
   outbox (handle_battle_evaluate_end chat_id (Some verdict) s)
     = outbox s @ [(chat_id, ResultMsg verdict)]"
  by (simp add: handle_battle_evaluate_end_def)

text \<open>
  When the two do not overlap, one message is produced: after the expiry the message
  handler finds no session and starts no evaluation; after a finished evaluation the
  timeout job is cancelled and its firing does nothing.
\<close>

lemma expiry_then_mention:
  assumes "battles s chat_id = Some b" and "timeout_name chat_id \<in> set (jobs s)"
  shows "outbox (run s [TimeoutFires chat_id, Mention chat_id False user_text])
           = outbox s @ [(chat_id, TimeoutMsg)] \<and>
         evaluating (run s [TimeoutFires chat_id, Mention chat_id False user_text]) = evaluating s \<and>
         battles (run s [TimeoutFires chat_id, Mention chat_id False user_text]) chat_id = None"
  using assms by (simp add: run_def battle_final_timeout_def handle_message_def)

lemma evaluation_then_expiry:
  assumes "battles s chat_id = Some b" and "evaluating s = []" and "verdict \<noteq> []"
  shows "outbox (run s [Mention chat_id False user_text, LLMReturns chat_id (Some verdict),
                        TimeoutFires chat_id])
           = outbox s @ [(chat_id, ThinkingMsg), (chat_id, ResultMsg verdict)] \<and>
         battles (run s [Mention chat_id False user_text, LLMReturns chat_id (Some verdict),
                        TimeoutFires chat_id]) chat_id = None"
  using assms
  by (simp add: run_def handle_message_def handle_battle_evaluate_begin_def
        handle_battle_evaluate_end_def)

end
